theory Spec2Isabelle
  imports Complex_Main "HOL-Library.AList"
begin

section \<open>The InkML decoder of pinkml\<close>

text \<open>
  A shallow embedding of the Python package \<^verbatim>\<open>inkml\<close> (modules \<^verbatim>\<open>ids\<close>, \<^verbatim>\<open>ink\<close>,
  \<^verbatim>\<open>reading_types\<close>, \<^verbatim>\<open>references\<close> and \<^verbatim>\<open>reading\<close>).

  Conventions of the embedding.
  \<^item> Python strings are \<open>string\<close>; the characters are the code points below 256, so
    the classes \<^verbatim>\<open>\s\<close> and \<^verbatim>\<open>\d\<close> of the regular expression and the white space of
    \<^verbatim>\<open>str.strip\<close>, \<^verbatim>\<open>float\<close> and \<^verbatim>\<open>int\<close> are their parts below 256.
  \<^item> A Python \<^verbatim>\<open>float\<close> is an IEEE 754 binary64 number, with its two zeros, its
    infinities and NaN; an operation rounds its exact result to the nearest such
    number. A Python \<^verbatim>\<open>int\<close> is an \<open>int\<close>, and a value that the decoder stores is one
    or the other.
  \<^item> A dictionary is an association list with distinct keys in insertion order;
    \<open>AList.update\<close> is item assignment and \<open>AList.delete\<close> is \<^verbatim>\<open>del\<close>.
  \<^item> An uncaught Python exception is a value of \<open>py_error\<close>; a logged warning is a
    value of \<open>warning\<close> (the message text is kept as its arguments).
\<close>

subsection \<open>Exceptions, warnings and outcomes\<close>

datatype py_error =
  IndexError | KeyError | TypeError | ValueError | OverflowError | Exception

datatype warning =
    ExpectedBetween nat nat nat string
  | UnexpectedValue string nat bool
  | CouldNotParseTraceContent
  | CouldNotReadTrace
  | CouldNotReadTraceGroup
  | CouldNotReadTraceView
  | CouldNotFind string string string
  | ExternalReference string
  | UnexpectedContinuation string
  | PriorRefRequired string
  | ContinuationWithoutId string
  | AttributeRequired string string
  | ExpectedDecimal string string
  | NestedTraceFormatRequired
  | NoContentNorHref
  | BadIntegers string string
  | BrushesIgnored "string list"

text \<open>
  The result of the trace-body parser and of its steps: \<open>Ok\<close> is a normal result,
  \<open>Warn w\<close> stands for \<^verbatim>\<open>self.logger.warning(w); return None, None\<close>, and
  \<open>Raise e\<close> for an exception that leaves the function.
\<close>

datatype 'a outcome = Ok 'a | Warn warning | Raise py_error

subsection \<open>Strings\<close>

text \<open>The white space of \<^verbatim>\<open>\s\<close> and of \<^verbatim>\<open>str.strip\<close>.\<close>

definition is_space :: "char \<Rightarrow> bool" where
  "is_space c = (c \<in> set [CHR '' '', CHR 0x09, CHR 0x0A, CHR 0x0B, CHR 0x0C, CHR 0x0D,
                           CHR 0x1C, CHR 0x1D, CHR 0x1E, CHR 0x1F, CHR 0x85, CHR 0xA0])"

definition is_digit :: "char \<Rightarrow> bool" where
  "is_digit c = (c \<in> set ''0123456789'')"

definition is_hex_upper :: "char \<Rightarrow> bool" where
  "is_hex_upper c = (c \<in> set ''0123456789ABCDEF'')"

text \<open>\<^verbatim>\<open>str.lower\<close>, on the code points below 256.\<close>

definition lower :: "string \<Rightarrow> string" where
  "lower s =
     map (\<lambda>c. let n = (of_char c :: nat)
              in if (65 \<le> n \<and> n \<le> 90) \<or> (192 \<le> n \<and> n \<le> 222 \<and> n \<noteq> 215)
                 then char_of (n + 32) else c) s"

definition strip :: "string \<Rightarrow> string" where
  "strip s = rev (dropWhile is_space (rev (dropWhile is_space s)))"

fun split_on :: "char \<Rightarrow> string \<Rightarrow> string list" where
  "split_on sep [] = [[]]"
| "split_on sep (c # cs) =
     (if c = sep then [] # split_on sep cs
      else (case split_on sep cs of
              [] \<Rightarrow> [[c]]
            | w # ws \<Rightarrow> (c # w) # ws))"

subsection \<open>ids.py\<close>

definition is_local_id :: "string \<Rightarrow> bool" where
  "is_local_id uri = (length uri > 1 \<and> hd uri = CHR ''#'')"

definition to_local_id :: "string \<Rightarrow> string" where
  "to_local_id uri = (if is_local_id uri then tl uri else uri)"

definition to_optional_local_id :: "string \<Rightarrow> string option" where
  "to_optional_local_id uri = (if is_local_id uri then Some (tl uri) else None)"

subsection \<open>The point tokenizer\<close>

text \<open>
  \<^verbatim>\<open>tokenize_expr\<close> is the regular expression
  \<^verbatim>\<open>((?:[!'"]?\s*-?\s*(?:(?:\d+(?:\.\d*)?|(\.\d+))([eE][+-]?\d)?)|(#[\dA-F]+))|[TF*?])\<close>.
  Each matcher below takes the text at a position and returns the text left after the
  match, or \<open>None\<close>. The expression has no part after its optional and starred pieces
  that could make the engine give characters back, so the greedy choice is the match.
\<close>

definition is_marker :: "char \<Rightarrow> bool" where
  "is_marker c = (c = CHR ''!'' \<or> c = CHR 0x27 \<or> c = CHR 0x22)"

text \<open>\<^verbatim>\<open>([eE][+-]?\d)?\<close>: the exponent holds exactly one digit.\<close>

definition match_exponent :: "string \<Rightarrow> string" where
  "match_exponent s =
     (case s of
        [] \<Rightarrow> s
      | c # r \<Rightarrow>
          if c = CHR ''e'' \<or> c = CHR ''E'' then
            (let r' = (case r of
                         [] \<Rightarrow> r
                       | d # r2 \<Rightarrow> if d = CHR ''+'' \<or> d = CHR ''-'' then r2 else r)
             in (case r' of
                   [] \<Rightarrow> s
                 | d # r3 \<Rightarrow> if is_digit d then r3 else s))
          else s)"

text \<open>\<^verbatim>\<open>(?:\d+(?:\.\d*)?|(\.\d+))\<close>\<close>

definition match_decimal :: "string \<Rightarrow> string option" where
  "match_decimal s =
     (case s of
        [] \<Rightarrow> None
      | c # r \<Rightarrow>
          if is_digit c then
            (let r1 = dropWhile is_digit r
             in (case r1 of
                   [] \<Rightarrow> Some r1
                 | d # r2 \<Rightarrow> if d = CHR ''.'' then Some (dropWhile is_digit r2) else Some r1))
          else if c = CHR ''.'' then
            (case r of
               [] \<Rightarrow> None
             | d # r2 \<Rightarrow> if is_digit d then Some (dropWhile is_digit r2) else None)
          else None)"

text \<open>\<^verbatim>\<open>[!'"]?\s*-?\s*\<close> followed by the decimal and the optional exponent.\<close>

definition match_prefixed :: "string \<Rightarrow> string option" where
  "match_prefixed s =
     (let s1 = (case s of [] \<Rightarrow> s | c # r \<Rightarrow> if is_marker c then r else s);
          s2 = dropWhile is_space s1;
          s3 = (case s2 of [] \<Rightarrow> s2 | c # r \<Rightarrow> if c = CHR ''-'' then r else s2);
          s4 = dropWhile is_space s3
      in map_option match_exponent (match_decimal s4))"

text \<open>\<^verbatim>\<open>(#[\dA-F]+)\<close>\<close>

definition match_hex :: "string \<Rightarrow> string option" where
  "match_hex s =
     (case s of
        [] \<Rightarrow> None
      | c # r \<Rightarrow>
          if c = CHR ''#'' then
            (case r of
               [] \<Rightarrow> None
             | d # r2 \<Rightarrow> if is_hex_upper d then Some (dropWhile is_hex_upper r2) else None)
          else None)"

text \<open>\<^verbatim>\<open>[TF*?]\<close>\<close>

definition match_single :: "string \<Rightarrow> string option" where
  "match_single s =
     (case s of
        [] \<Rightarrow> None
      | c # r \<Rightarrow> if c \<in> set ''TF*?'' then Some r else None)"

definition match_token :: "string \<Rightarrow> string option" where
  "match_token s =
     (case match_prefixed s of
        Some r \<Rightarrow> Some r
      | None \<Rightarrow>
          (case match_hex s of
             Some r \<Rightarrow> Some r
           | None \<Rightarrow> match_single s))"

lemma dropWhile_length_le: "length (dropWhile P xs) \<le> length xs"
  by (induction xs) auto

lemma match_exponent_length: "length (match_exponent s) \<le> length s"
  by (auto simp: match_exponent_def Let_def split: list.splits)

lemma match_decimal_length: "match_decimal s = Some r \<Longrightarrow> length r < length s"
proof (cases s)
  case Nil then show "match_decimal s = Some r \<Longrightarrow> ?thesis" by (simp add: match_decimal_def)
next
  case (Cons c t)
  assume m: "match_decimal s = Some r"
  have a: "length (dropWhile is_digit t) \<le> length t" by (rule dropWhile_length_le)
  show ?thesis
  proof (cases "is_digit c")
    case True
    show ?thesis
    proof (cases "dropWhile is_digit t")
      case Nil with m Cons True show ?thesis by (simp add: match_decimal_def)
    next
      case (Cons d r2)
      have b: "length (dropWhile is_digit r2) \<le> length r2" by (rule dropWhile_length_le)
      from Cons a have c: "Suc (length r2) \<le> length t" by simp
      from m \<open>s = c # t\<close> True Cons have "r = dropWhile is_digit r2 \<or> r = d # r2"
        by (auto simp: match_decimal_def split: if_splits)
      with b c \<open>s = c # t\<close> show ?thesis by auto
    qed
  next
    case False
    show ?thesis
    proof (cases t)
      case Nil with m Cons False show ?thesis by (simp add: match_decimal_def split: if_splits)
    next
      case (Cons d r2)
      have b: "length (dropWhile is_digit r2) \<le> length r2" by (rule dropWhile_length_le)
      with m \<open>s = c # t\<close> False Cons show ?thesis
        by (auto simp: match_decimal_def split: if_splits)
    qed
  qed
qed

lemma match_prefixed_length: "match_prefixed s = Some r \<Longrightarrow> length r < length s"
proof -
  assume m: "match_prefixed s = Some r"
  define s1 where "s1 = (case s of [] \<Rightarrow> s | c # r \<Rightarrow> if is_marker c then r else s)"
  define s2 where "s2 = dropWhile is_space s1"
  define s3 where "s3 = (case s2 of [] \<Rightarrow> s2 | c # r \<Rightarrow> if c = CHR ''-'' then r else s2)"
  define s4 where "s4 = dropWhile is_space s3"
  have l1: "length s1 \<le> length s" by (simp add: s1_def split: list.splits)
  have l2: "length s2 \<le> length s1" unfolding s2_def by (rule dropWhile_length_le)
  have l3: "length s3 \<le> length s2" by (simp add: s3_def split: list.splits)
  have l4: "length s4 \<le> length s3" unfolding s4_def by (rule dropWhile_length_le)
  from m have "map_option match_exponent (match_decimal s4) = Some r"
    unfolding match_prefixed_def Let_def s4_def s3_def s2_def s1_def .
  then obtain q where q: "match_decimal s4 = Some q" and r: "r = match_exponent q"
    by auto
  from q have "length q < length s4" by (rule match_decimal_length)
  moreover have "length r \<le> length q" unfolding r by (rule match_exponent_length)
  ultimately show ?thesis using l1 l2 l3 l4 by linarith
qed

lemma match_hex_length: "match_hex s = Some r \<Longrightarrow> length r < length s"
proof -
  assume m: "match_hex s = Some r"
  then obtain d r2 where s: "s = CHR ''#'' # d # r2" and r: "r = dropWhile is_hex_upper r2"
    by (auto simp: match_hex_def split: list.splits if_splits)
  have "length (dropWhile is_hex_upper r2) \<le> length r2" by (rule dropWhile_length_le)
  with s r show ?thesis by simp
qed

lemma match_single_length: "match_single s = Some r \<Longrightarrow> length r < length s"
  by (auto simp: match_single_def split: list.splits if_splits)

lemma match_token_length: "match_token s = Some r \<Longrightarrow> length r < length s"
  by (auto simp: match_token_def split: option.splits
      dest: match_prefixed_length match_hex_length match_single_length)

text \<open>
  \<^verbatim>\<open>tokenize_expr.findall(point)\<close> followed by \<^verbatim>\<open>m[0]\<close>: the matches from left to
  right, none overlapping; where nothing matches, the scan moves one character on.
  Every alternative consumes a character, so no match is empty.
\<close>

function findall :: "string \<Rightarrow> string list" where
  "findall s =
     (case s of
        [] \<Rightarrow> []
      | c # cs \<Rightarrow>
          (case match_token s of
             Some r \<Rightarrow> take (length s - length r) s # findall r
           | None \<Rightarrow> findall cs))"
  by pat_completeness auto
termination
  by (relation "measure length") (auto dest: match_token_length)


subsection \<open>Numbers\<close>

fun index_of :: "char \<Rightarrow> string \<Rightarrow> nat" where
  "index_of c [] = 0"
| "index_of c (x # xs) = (if x = c then 0 else Suc (index_of c xs))"

definition digit_val :: "char \<Rightarrow> int" where
  "digit_val c = int (index_of c ''0123456789'')"

definition is_hex :: "char \<Rightarrow> bool" where
  "is_hex c = (c \<in> set ''0123456789ABCDEFabcdef'')"

definition hex_val :: "char \<Rightarrow> int" where
  "hex_val c = int (if c \<in> set ''abcdef'' then index_of c ''0123456789abcdef''
                     else index_of c ''0123456789ABCDEF'')"

definition digits_val :: "string \<Rightarrow> int" where
  "digits_val ds = foldl (\<lambda>a c. 10 * a + digit_val c) 0 ds"

definition hex_digits_val :: "string \<Rightarrow> int" where
  "hex_digits_val ds = foldl (\<lambda>a c. 16 * a + hex_val c) 0 ds"

definition pow10 :: "int \<Rightarrow> rat" where
  "pow10 e = (if 0 \<le> e then 10 ^ nat e else 1 / 10 ^ nat (- e))"

definition split_sign :: "string \<Rightarrow> bool \<times> string" where
  "split_sign s =
     (case s of
        [] \<Rightarrow> (False, s)
      | c # r \<Rightarrow> if c = CHR ''-'' then (True, r) else if c = CHR ''+'' then (False, r) else (False, s))"

text \<open>
  A Python \<^verbatim>\<open>float\<close> is an IEEE 754 binary64 number: \<open>Finite q\<close> is the number of value
  \<open>q\<close> (and \<open>Finite 0\<close> is \<^verbatim>\<open>0.0\<close>), \<open>MinusZero\<close> is \<^verbatim>\<open>-0.0\<close>. The result of an operation is
  the exact result rounded to the nearest binary64 number, a tie going to the even
  significand: with \<open>e\<close> the binary exponent of \<open>a\<close>, not below that of the least normal
  number, the numbers around \<open>a\<close> are the multiples of \<open>2 ^ (e - 52)\<close>, and a result
  of \<open>2 ^ 1024\<close> or more, which takes an exponent of 1023 at least, is an infinity.
\<close>

datatype double = Finite rat | MinusZero | PlusInf | MinusInf | NaN

definition pow2 :: "int \<Rightarrow> rat" where
  "pow2 e = (if 0 \<le> e then 2 ^ nat e else 1 / 2 ^ nat (- e))"

function bit_length :: "int \<Rightarrow> int" where
  "bit_length n = (if n \<le> 0 then 0 else 1 + bit_length (n div 2))"
  by pat_completeness auto

termination
  by (relation "measure nat") auto

declare bit_length.simps [simp del]

text \<open>The integer \<open>e\<close> with \<open>2 ^ e \<le> a < 2 ^ (e + 1)\<close>, for a positive \<open>a\<close>.\<close>

definition floor_log2 :: "rat \<Rightarrow> int" where
  "floor_log2 a =
     (case quotient_of a of
        (p, q) \<Rightarrow>
          (let c = bit_length p - bit_length q
           in if pow2 c \<le> a then c else c - 1))"

definition round_half_even :: "rat \<Rightarrow> int" where
  "round_half_even x =
     (let f = \<lfloor>x\<rfloor>; d = x - of_int f
      in if d < 1 / 2 then f
         else if 1 / 2 < d then f + 1
         else if even f then f else f + 1)"

definition round_magnitude :: "rat \<Rightarrow> double" where
  "round_magnitude a =
     (if a = 0 then Finite 0
      else (let e = max (floor_log2 a) (- 1022);
                ulp = pow2 (e - 52);
                r = of_int (round_half_even (a / ulp)) * ulp
            in if e < 1023 then Finite r
               else if pow2 1024 \<le> r then PlusInf
               else Finite r))"

definition float_neg :: "double \<Rightarrow> double" where
  "float_neg x =
     (case x of
        Finite q \<Rightarrow> if q = 0 then MinusZero else Finite (- q)
      | MinusZero \<Rightarrow> Finite 0
      | PlusInf \<Rightarrow> MinusInf
      | MinusInf \<Rightarrow> PlusInf
      | NaN \<Rightarrow> NaN)"

definition round_double :: "rat \<Rightarrow> double" where
  "round_double q = (if q < 0 then float_neg (round_magnitude (- q)) else round_magnitude q)"

definition float_add :: "double \<Rightarrow> double \<Rightarrow> double" where
  "float_add x y =
     (case (x, y) of
        (NaN, _) \<Rightarrow> NaN
      | (_, NaN) \<Rightarrow> NaN
      | (PlusInf, MinusInf) \<Rightarrow> NaN
      | (MinusInf, PlusInf) \<Rightarrow> NaN
      | (PlusInf, _) \<Rightarrow> PlusInf
      | (_, PlusInf) \<Rightarrow> PlusInf
      | (MinusInf, _) \<Rightarrow> MinusInf
      | (_, MinusInf) \<Rightarrow> MinusInf
      | (MinusZero, _) \<Rightarrow> y
      | (_, MinusZero) \<Rightarrow> x
      | (Finite a, Finite b) \<Rightarrow> round_double (a + b))"

text \<open>
  \<^verbatim>\<open>float(s)\<close> and \<^verbatim>\<open>int(s)\<close> drop the white space around the number; theirs is the
  white space of \<^verbatim>\<open>str.strip\<close> without the four separators \<^verbatim>\<open>\x1c\<close> to \<^verbatim>\<open>\x1f\<close>.
\<close>

definition is_number_space :: "char \<Rightarrow> bool" where
  "is_number_space c = (c \<in> set [CHR '' '', CHR 0x09, CHR 0x0A, CHR 0x0B, CHR 0x0C, CHR 0x0D,
                                  CHR 0x85, CHR 0xA0])"

definition strip_number :: "string \<Rightarrow> string" where
  "strip_number s = rev (dropWhile is_number_space (rev (dropWhile is_number_space s)))"

text \<open>
  An underscore in the text of a number stands after a digit and before a digit; the
  number is read from the text without its underscores.
\<close>

fun underscores_ok :: "char \<Rightarrow> string \<Rightarrow> bool" where
  "underscores_ok prev [] = (prev \<noteq> CHR ''_'')"
| "underscores_ok prev (c # cs) =
     ((if c = CHR ''_'' then is_digit prev else prev = CHR ''_'' \<longrightarrow> is_digit c)
      \<and> underscores_ok c cs)"

definition without_underscores :: "string \<Rightarrow> string option" where
  "without_underscores s =
     (if underscores_ok CHR 0x00 s then Some (filter (\<lambda>c. c \<noteq> CHR ''_'') s) else None)"

definition ascii_lower :: "char \<Rightarrow> char" where
  "ascii_lower c = (if c \<in> set ''ABCDEFGHIJKLMNOPQRSTUVWXYZ''
                    then ''abcdefghijklmnopqrstuvwxyz'' ! index_of c ''ABCDEFGHIJKLMNOPQRSTUVWXYZ''
                    else c)"

definition parse_exponent :: "string \<Rightarrow> int option" where
  "parse_exponent s =
     (case s of
        [] \<Rightarrow> Some 0
      | c # r \<Rightarrow>
          if c = CHR ''e'' \<or> c = CHR ''E'' then
            (case split_sign r of
               (neg, ds) \<Rightarrow>
                 if ds \<noteq> [] \<and> list_all is_digit ds
                 then Some ((if neg then - 1 else 1) * digits_val ds)
                 else None)
          else None)"

text \<open>
  The value of a decimal literal without sign: digits with an optional fraction, or a
  fraction alone, and an optional exponent.
\<close>

definition parse_decimal :: "string \<Rightarrow> rat option" where
  "parse_decimal u =
     (let ip = takeWhile is_digit u;
          r1 = dropWhile is_digit u
      in (case (case r1 of
                  [] \<Rightarrow> ([], r1)
                | c # r \<Rightarrow>
                    if c = CHR ''.'' then (takeWhile is_digit r, dropWhile is_digit r)
                    else ([], r1)) of
            (fp, r2) \<Rightarrow>
              if ip = [] \<and> fp = [] then None
              else (case parse_exponent r2 of
                      None \<Rightarrow> None
                    | Some e \<Rightarrow>
                        Some (of_int (digits_val (ip @ fp)) / 10 ^ length fp * pow10 e))))"

text \<open>
  \<^verbatim>\<open>float(s)\<close>: white space, a sign, then \<^verbatim>\<open>inf\<close>, \<^verbatim>\<open>infinity\<close> or \<^verbatim>\<open>nan\<close> in either case,
  or a decimal literal, which is rounded to the nearest binary64 number. \<open>None\<close> is
  \<^verbatim>\<open>ValueError\<close>.
\<close>

definition py_float :: "string \<Rightarrow> double option" where
  "py_float s =
     (case without_underscores (strip_number s) of
        None \<Rightarrow> None
      | Some t \<Rightarrow>
          (case split_sign t of
             (neg, u) \<Rightarrow>
               map_option (\<lambda>x. if neg then float_neg x else x)
                 (if map ascii_lower u = ''inf'' \<or> map ascii_lower u = ''infinity''
                  then Some PlusInf
                  else if map ascii_lower u = ''nan'' then Some NaN
                  else map_option round_magnitude (parse_decimal u))))"

text \<open>
  \<^verbatim>\<open>int(s, 16)\<close>: white space, a sign and hexadecimal digits of either case. The prefix
  \<^verbatim>\<open>0x\<close> and \<^verbatim>\<open>_\<close> between digits, which Python accepts as well, need characters that
  no token of \<open>findall\<close> holds.
\<close>

definition py_int16 :: "string \<Rightarrow> int option" where
  "py_int16 s =
     (case split_sign (strip_number s) of
        (neg, ds) \<Rightarrow>
          if ds \<noteq> [] \<and> list_all is_hex ds
          then Some ((if neg then - 1 else 1) * hex_digits_val ds)
          else None)"

text \<open>
  A Python number is an \<^verbatim>\<open>int\<close> or a \<^verbatim>\<open>float\<close>. \<^verbatim>\<open>float(n)\<close> of an integer rounds as
  above and raises \<^verbatim>\<open>OverflowError\<close> where the result would be an infinity; \<^verbatim>\<open>a + b\<close>
  is exact on two integers and otherwise the sum of the two as floats.
\<close>

datatype number = PyInt int | PyFloat double

definition int_to_float :: "int \<Rightarrow> py_error + double" where
  "int_to_float n =
     (case round_double (of_int n) of
        PlusInf \<Rightarrow> Inl OverflowError
      | MinusInf \<Rightarrow> Inl OverflowError
      | x \<Rightarrow> Inr x)"

definition to_float :: "number \<Rightarrow> py_error + double" where
  "to_float a = (case a of PyInt n \<Rightarrow> int_to_float n | PyFloat x \<Rightarrow> Inr x)"

definition py_add :: "number \<Rightarrow> number \<Rightarrow> py_error + number" where
  "py_add a b =
     (case (a, b) of
        (PyInt m, PyInt n) \<Rightarrow> Inr (PyInt (m + n))
      | _ \<Rightarrow>
          (case to_float a of
             Inl e \<Rightarrow> Inl e
           | Inr x \<Rightarrow>
               (case to_float b of
                  Inl e \<Rightarrow> Inl e
                | Inr y \<Rightarrow> Inr (PyFloat (float_add x y)))))"

text \<open>\<^verbatim>\<open>num *= -1\<close>.\<close>

definition times_minus_one :: "number \<Rightarrow> number" where
  "times_minus_one a = (case a of PyInt n \<Rightarrow> PyInt (n * - 1) | PyFloat x \<Rightarrow> PyFloat (float_neg x))"

text \<open>
  \<^verbatim>\<open>round(x)\<close> of Python 3 with one argument: an integer is left as it is, a float goes to
  the nearest integer, an exact half to the even neighbour; an infinity raises
  \<^verbatim>\<open>OverflowError\<close> and NaN raises \<^verbatim>\<open>ValueError\<close>.
\<close>

definition py_round :: "number \<Rightarrow> py_error + number" where
  "py_round a =
     (case a of
        PyInt n \<Rightarrow> Inr (PyInt n)
      | PyFloat x \<Rightarrow>
          (case x of
             Finite q \<Rightarrow> Inr (PyInt (round_half_even q))
           | MinusZero \<Rightarrow> Inr (PyInt 0)
           | PlusInf \<Rightarrow> Inl OverflowError
           | MinusInf \<Rightarrow> Inl OverflowError
           | NaN \<Rightarrow> Inl ValueError))"

text \<open>\<^verbatim>\<open>math.isnan(x)\<close>, which takes its argument as a float.\<close>

definition math_isnan :: "number \<Rightarrow> py_error + bool" where
  "math_isnan a = (case to_float a of Inl e \<Rightarrow> Inl e | Inr x \<Rightarrow> Inr (x = NaN))"

subsection \<open>ink.py: channels and trace formats\<close>

datatype channel_type = Integer | Decimal | Double | Boolean

datatype channel_orientation = Positive | Negative

record property =
  prop_value :: string
  prop_units :: "string option"

text \<open>
  The default of a channel is the integer 0 at first, then a boolean on a boolean channel
  and a float on any other. \<^verbatim>\<open>read_channel\<close> stores the attribute \<^verbatim>\<open>respectTo\<close> under that
  name, beside the declared field \<^verbatim>\<open>respect_to\<close>.
\<close>

datatype channel_default = DefaultNumber number | DefaultBool bool

record channel =
  ch_id :: string
  ch_name :: string
  ch_type :: channel_type
  ch_default :: channel_default
  ch_min :: "double option"
  ch_max :: "double option"
  ch_orientation :: channel_orientation
  ch_respect_to :: string
  ch_respectTo :: "string option"
  ch_units :: string
  ch_properties :: "(string \<times> property) list"

definition Channel :: "string \<Rightarrow> channel" where
  "Channel nm = \<lparr>ch_id = [], ch_name = nm, ch_type = Decimal,
                  ch_default = DefaultNumber (PyInt 0), ch_min = None, ch_max = None,
                  ch_orientation = Positive, ch_respect_to = [], ch_respectTo = None,
                  ch_units = [], ch_properties = []\<rparr>"

record trace_format =
  tf_id :: string
  regular_channels :: "channel list"
  intermittent_channels :: "channel list"

definition TraceFormat :: trace_format where
  "TraceFormat = \<lparr>tf_id = [], regular_channels = [], intermittent_channels = []\<rparr>"

definition get_default_trace_format :: trace_format where
  "get_default_trace_format =
     TraceFormat\<lparr>tf_id := ''DefaultTraceFormat'',
                  regular_channels := [Channel ''X'', Channel ''Y'']\<rparr>"

subsection \<open>reading_types.py: the channels of a trace being decoded\<close>

datatype difference_order = Explicit | Difference | SecondDifference

record regular_channel =
  rc_name :: string
  rc_type :: channel_type
  rc_values :: "number list"
  rc_difference_order :: difference_order
  rc_last_difference :: number

definition RegularChannel :: "string \<Rightarrow> channel_type \<Rightarrow> regular_channel" where
  "RegularChannel nm t =
     \<lparr>rc_name = nm, rc_type = t, rc_values = [], rc_difference_order = Explicit,
      rc_last_difference = PyFloat NaN\<rparr>"

record intermittent_channel =
  ic_name :: string
  ic_type :: channel_type
  ic_index_values :: "(nat \<times> number) list"

definition IntermittentChannel :: "string \<Rightarrow> channel_type \<Rightarrow> intermittent_channel" where
  "IntermittentChannel nm t = \<lparr>ic_name = nm, ic_type = t, ic_index_values = []\<rparr>"

subsection \<open>Reader.parse\_trace\_content\<close>

text \<open>
  \<^verbatim>\<open>int(token[1:], 16) if (token[0] == '#') else float(token)\<close> inside
  \<^verbatim>\<open>try ... except ValueError\<close>: \<open>Inl\<close> is an exception that is not caught,
  \<open>Inr None\<close> the \<^verbatim>\<open>ValueError\<close>.
\<close>

definition parse_number :: "string \<Rightarrow> py_error + number option" where
  "parse_number token =
     (case token of
        [] \<Rightarrow> Inl IndexError
      | c # r \<Rightarrow>
          if c = CHR ''#'' then Inr (map_option PyInt (py_int16 r))
          else Inr (map_option PyFloat (py_float token)))"

text \<open>
  \<^verbatim>\<open>if channel.type == Ink.ChannelType.Integer: value = round(value)\<close>; the exceptions
  of \<^verbatim>\<open>round\<close> are not caught.
\<close>

definition round_if_integer :: "channel_type \<Rightarrow> number \<Rightarrow> py_error + number" where
  "round_if_integer t v = (if t = Integer then py_round v else Inr v)"

text \<open>An operation that may raise, followed by the rest of the step.\<close>

definition raising :: "py_error + 'a \<Rightarrow> ('a \<Rightarrow> 'b outcome) \<Rightarrow> 'b outcome" where
  "raising r f = (case r of Inl e \<Rightarrow> Raise e | Inr x \<Rightarrow> f x)"

text \<open>
  Lines 1053 to 1085: the value a number adds to a regular channel under a difference
  order, and the carry it leaves. The operations are taken in the order of the source:
  the sum, its rounding, and for a second difference the new carry at the end.
\<close>

definition add_value ::
  "regular_channel \<Rightarrow> difference_order \<Rightarrow> number \<Rightarrow> string \<Rightarrow> nat
     \<Rightarrow> regular_channel outcome" where
  "add_value channel order num token j =
     (case order of
        Explicit \<Rightarrow>
          raising (round_if_integer (rc_type channel) num)
            (\<lambda>v. Ok (channel\<lparr>rc_values := rc_values channel @ [v],
                             rc_last_difference := PyFloat NaN,
                             rc_difference_order := order\<rparr>))
      | Difference \<Rightarrow>
          if rc_values channel = [] then Warn (UnexpectedValue token j True)
          else
            raising (py_add (last (rc_values channel)) num)
              (\<lambda>s. raising (round_if_integer (rc_type channel) s)
              (\<lambda>v. Ok (channel\<lparr>rc_values := rc_values channel @ [v],
                               rc_last_difference := num,
                               rc_difference_order := order\<rparr>)))
      | SecondDifference \<Rightarrow>
          raising (math_isnan (rc_last_difference channel))
            (\<lambda>nan.
               if nan then Warn (UnexpectedValue token j True)
               else if rc_values channel = [] then Raise IndexError
               else
                 raising (py_add (last (rc_values channel)) (rc_last_difference channel))
                   (\<lambda>s. raising (py_add s num)
                   (\<lambda>s. raising (round_if_integer (rc_type channel) s)
                   (\<lambda>v. raising (py_add (rc_last_difference channel) num)
                   (\<lambda>carry. Ok (channel\<lparr>rc_values := rc_values channel @ [v],
                                        rc_last_difference := carry,
                                        rc_difference_order := order\<rparr>)))))))"

text \<open>Lines 1022 to 1032: the marker of a token and the token without it.\<close>

definition split_marker :: "string \<Rightarrow> difference_order option \<times> string" where
  "split_marker token =
     (case token of
        [] \<Rightarrow> (None, token)
      | c # r \<Rightarrow>
          if c = CHR ''!'' then (Some Explicit, r)
          else if c = CHR 0x27 then (Some Difference, r)
          else if c = CHR 0x22 then (Some SecondDifference, r)
          else (None, token))"

text \<open>
  Lines 1037 to 1051, and again lines 1116 to 1130: the minus sign and the number of a
  token. The result holds the number and the token as the source leaves it (the text
  of the warnings that follow).
\<close>

definition signed_number :: "string \<Rightarrow> nat \<Rightarrow> bool \<Rightarrow> (number \<times> string) outcome" where
  "signed_number token j regular =
     (case token of
        [] \<Rightarrow> Raise IndexError
      | c # r \<Rightarrow>
          (let is_negative = (c = CHR ''-'');
               token1 = (if is_negative then strip r else token)
           in (case parse_number token1 of
                 Inl e \<Rightarrow> Raise e
               | Inr None \<Rightarrow> Warn (UnexpectedValue token1 j regular)
               | Inr (Some n) \<Rightarrow> Ok (if is_negative then times_minus_one n else n, token1))))"

text \<open>The body of the loop over the regular channels (lines 997 to 1085).\<close>

definition process_regular_token ::
  "regular_channel \<Rightarrow> string \<Rightarrow> nat \<Rightarrow> regular_channel outcome" where
  "process_regular_token channel token j =
     (if token = ''*'' then
        (if rc_values channel \<noteq> []
         then Ok (channel\<lparr>rc_values := rc_values channel @ [last (rc_values channel)]\<rparr>)
         else Warn (UnexpectedValue token j True))
      else if rc_type channel = Boolean then
        (if token = ''T'' then Ok (channel\<lparr>rc_values := rc_values channel @ [PyInt 1]\<rparr>)
         else if token = ''F'' then Ok (channel\<lparr>rc_values := rc_values channel @ [PyInt 0]\<rparr>)
         else Warn (UnexpectedValue token j True))
      else if token = [] then Raise IndexError
      else
        (case split_marker token of
           (marker, token1) \<Rightarrow>
             (case signed_number (strip token1) j True of
                Raise e \<Rightarrow> Raise e
              | Warn w \<Rightarrow> Warn w
              | Ok (num, token2) \<Rightarrow>
                  add_value channel
                    (case marker of None \<Rightarrow> rc_difference_order channel | Some d \<Rightarrow> d)
                    num token2 j)))"

text \<open>The body of the loop over the intermittent channels (lines 1089 to 1136).\<close>

definition process_intermittent_token ::
  "nat \<Rightarrow> intermittent_channel \<Rightarrow> string \<Rightarrow> nat \<Rightarrow> intermittent_channel outcome" where
  "process_intermittent_token i channel token j =
     (if token = ''?'' then Ok channel
      else if token = ''*'' then
        (if ic_index_values channel \<noteq> []
         then Ok (channel\<lparr>ic_index_values :=
                    ic_index_values channel @ [(i, snd (last (ic_index_values channel)))]\<rparr>)
         else Warn (UnexpectedValue token j False))
      else if ic_type channel = Boolean then
        (if token = ''T''
         then Ok (channel\<lparr>ic_index_values := ic_index_values channel @ [(i, PyInt 1)]\<rparr>)
         else if token = ''F''
         then Ok (channel\<lparr>ic_index_values := ic_index_values channel @ [(i, PyInt 0)]\<rparr>)
         else Warn (UnexpectedValue token j False))
      else
        (case signed_number token j False of
           Raise e \<Rightarrow> Raise e
         | Warn w \<Rightarrow> Warn w
         | Ok (num, token1) \<Rightarrow>
             raising (round_if_integer (ic_type channel) num)
               (\<lambda>v. Ok (channel\<lparr>ic_index_values := ic_index_values channel @ [(i, v)]\<rparr>))))"

text \<open>
  \<^verbatim>\<open>for j in range(num_regular_channels)\<close> and
  \<^verbatim>\<open>for j in range(num_regular_channels, num_channels)\<close>, over the list of the indices.
  \<^verbatim>\<open>tokens[j]\<close> outside the list raises \<^verbatim>\<open>IndexError\<close>.
\<close>

fun regular_loop ::
  "string list \<Rightarrow> regular_channel list \<Rightarrow> nat list \<Rightarrow> regular_channel list outcome" where
  "regular_loop tokens chans [] = Ok chans"
| "regular_loop tokens chans (j # js) =
     (if j < length tokens \<and> j < length chans then
        (case process_regular_token (chans ! j) (tokens ! j) j of
           Ok ch \<Rightarrow> regular_loop tokens (chans[j := ch]) js
         | Warn w \<Rightarrow> Warn w
         | Raise e \<Rightarrow> Raise e)
      else Raise IndexError)"

fun intermittent_loop ::
  "nat \<Rightarrow> string list \<Rightarrow> nat \<Rightarrow> intermittent_channel list \<Rightarrow> nat list
     \<Rightarrow> intermittent_channel list outcome" where
  "intermittent_loop i tokens num_regular chans [] = Ok chans"
| "intermittent_loop i tokens num_regular chans (j # js) =
     (if j < length tokens \<and> num_regular \<le> j \<and> j - num_regular < length chans then
        (case process_intermittent_token i (chans ! (j - num_regular)) (tokens ! j) j of
           Ok ch \<Rightarrow> intermittent_loop i tokens num_regular (chans[j - num_regular := ch]) js
         | Warn w \<Rightarrow> Warn w
         | Raise e \<Rightarrow> Raise e)
      else Raise IndexError)"

text \<open>One round of the loop over the points (lines 984 to 1136).\<close>

definition parse_point ::
  "nat \<Rightarrow> string \<Rightarrow> regular_channel list \<times> intermittent_channel list
     \<Rightarrow> (regular_channel list \<times> intermittent_channel list) outcome" where
  "parse_point i point0 chans =
     (case chans of
        (regs, ints) \<Rightarrow>
          (let point = strip point0;
               tokens = findall point;
               num_regular_channels = length regs;
               num_channels = num_regular_channels + length ints
           in if length tokens < num_regular_channels \<or> num_channels < length tokens
              then Warn (ExpectedBetween num_regular_channels num_channels (length tokens) point)
              else (case regular_loop tokens regs [0..<num_regular_channels] of
                      Warn w \<Rightarrow> Warn w
                    | Raise e \<Rightarrow> Raise e
                    | Ok regs' \<Rightarrow>
                        (case intermittent_loop i tokens num_regular_channels ints
                                [num_regular_channels..<num_channels] of
                           Warn w \<Rightarrow> Warn w
                         | Raise e \<Rightarrow> Raise e
                         | Ok ints' \<Rightarrow> Ok (regs', ints')))))"

fun points_loop ::
  "nat \<Rightarrow> string list \<Rightarrow> regular_channel list \<times> intermittent_channel list
     \<Rightarrow> (regular_channel list \<times> intermittent_channel list) outcome" where
  "points_loop i [] chans = Ok chans"
| "points_loop i (point # points) chans =
     (case parse_point i point chans of
        Ok chans' \<Rightarrow> points_loop (Suc i) points chans'
      | Warn w \<Rightarrow> Warn w
      | Raise e \<Rightarrow> Raise e)"

definition parse_trace_content ::
  "string \<Rightarrow> trace_format \<Rightarrow> (regular_channel list \<times> intermittent_channel list) outcome" where
  "parse_trace_content content trace_format =
     points_loop 0 (split_on CHR '','' content)
       (map (\<lambda>ch. RegularChannel (ch_name ch) (ch_type ch)) (regular_channels trace_format),
        map (\<lambda>ch. IntermittentChannel (ch_name ch) (ch_type ch))
          (intermittent_channels trace_format))"


subsection \<open>The XML tree\<close>

text \<open>
  An \<^verbatim>\<open>xml.etree.ElementTree.Element\<close>: the tag in Clark notation, the attributes in
  document order, text and tail (\<open>None\<close> where there is none) and the children.
\<close>

datatype element =
  Element (el_tag: string) (el_attrib: "(string \<times> string) list")
    (el_text: "string option") (el_tail: "string option") (el_children: "element list")

definition INKML_NAMESPACE_URI :: string where
  "INKML_NAMESPACE_URI = ''http://www.w3.org/2003/InkML''"

definition XML_NAMESPACE_URI :: string where
  "XML_NAMESPACE_URI = ''http://www.w3.org/XML/1998/namespace''"

text \<open>
  Modelled from the spec: \<^verbatim>\<open>NAMESPACE_MAPPING\<close> of \<^verbatim>\<open>inkml/__init__.py\<close>, which is not
  among the source files. The decoder recognizes the InkML namespace for element names,
  so the prefix \<^verbatim>\<open>inkml:\<close> of a path stands for it.
\<close>

definition inkml :: "string \<Rightarrow> string" where
  "inkml local = ''{'' @ INKML_NAMESPACE_URI @ ''}'' @ local"

definition INK :: string where "INK = inkml ''ink''"
definition ANNOTATION :: string where "ANNOTATION = inkml ''annotation''"
definition ANNOTATION_XML :: string where "ANNOTATION_XML = inkml ''annotationXML''"
definition TRACE :: string where "TRACE = inkml ''trace''"
definition TRACE_GROUP :: string where "TRACE_GROUP = inkml ''traceGroup''"
definition TRACE_VIEW :: string where "TRACE_VIEW = inkml ''traceView''"
definition ID :: string where "ID = ''{'' @ XML_NAMESPACE_URI @ ''}id''"

definition get :: "element \<Rightarrow> string \<Rightarrow> string option" where
  "get element key = map_of (el_attrib element) key"

definition findall_children :: "element \<Rightarrow> string \<Rightarrow> element list" where
  "findall_children element local = filter (\<lambda>e. el_tag e = inkml local) (el_children element)"

definition find_child :: "element \<Rightarrow> string \<Rightarrow> element option" where
  "find_child element local = List.find (\<lambda>e. el_tag e = inkml local) (el_children element)"

definition get_id :: "element \<Rightarrow> string option" where
  "get_id element = (case get element ID of None \<Rightarrow> get element ''id'' | Some i \<Rightarrow> Some i)"

definition or_empty :: "string option \<Rightarrow> string" where
  "or_empty t = (case t of None \<Rightarrow> [] | Some x \<Rightarrow> x)"

fun get_inner_text :: "element \<Rightarrow> string" where
  "get_inner_text (Element tg attrs txt tail kids) =
     or_empty txt @ concat (map get_inner_text kids) @ or_empty tail"

subsection \<open>ink.py: the entities of a document\<close>

datatype annotation_content_type = Text | XML | HRef

record annotation =
  an_content :: string
  an_content_type :: annotation_content_type
  an_type :: string
  an_encoding :: string
  an_attributes :: "(string \<times> string) list"

definition Annotation :: "string \<Rightarrow> annotation_content_type \<Rightarrow> annotation" where
  "Annotation c t = \<lparr>an_content = c, an_content_type = t, an_type = [], an_encoding = [],
                      an_attributes = []\<rparr>"

record annotated_property =
  ap_value :: string
  ap_units :: "string option"
  ap_annotations :: "annotation list"

text \<open>
  The parent of a brush or of a context is a reference to another object. The resolver
  links an object only to one whose own parent is settled, and neither is written
  afterwards, so the chain of parents is finite and is held by value.
  The instance counter of \<^verbatim>\<open>Accountable\<close> is read by nothing in the decoder and has no
  field here.
\<close>

datatype brush =
  Brush (brush_id: string) (brush_parent: "brush option")
    (brush_properties: "(string \<times> annotated_property) list")
    (brush_annotations: "annotation list")

record sample_rate =
  sr_value :: double
  sr_uniform :: bool

record latency =
  lat_value :: double

record active_area =
  aa_width :: double
  aa_height :: double
  aa_units :: "string option"
  aa_size :: "string option"

text \<open>
  \<^verbatim>\<open>read_ink_source\<close> stores the sample rate, the active area, the serial number and the
  specification reference in the attributes \<^verbatim>\<open>sampleRate\<close>, \<^verbatim>\<open>activeArea\<close>, \<^verbatim>\<open>serialNo\<close> and
  \<^verbatim>\<open>specificationRef\<close>; the declared fields \<^verbatim>\<open>sample_rate\<close>, \<^verbatim>\<open>active_area\<close>,
  \<^verbatim>\<open>serial_no\<close> and \<^verbatim>\<open>specification_ref\<close> keep \<^verbatim>\<open>None\<close>.
\<close>

record ink_source =
  src_id :: string
  src_trace_format :: trace_format
  src_sample_rate :: "sample_rate option"
  src_sampleRate :: "sample_rate option"
  src_latency :: "latency option"
  src_active_area :: "active_area option"
  src_activeArea :: "active_area option"
  src_manufacturer :: "string option"
  src_model :: "string option"
  src_serial_no :: "string option"
  src_serialNo :: "string option"
  src_specification_ref :: "string option"
  src_specificationRef :: "string option"
  src_description :: "string option"
  src_properties :: "(string \<times> property) list"

definition InkSource :: "string \<Rightarrow> trace_format \<Rightarrow> ink_source" where
  "InkSource i tf =
     \<lparr>src_id = i, src_trace_format = tf, src_sample_rate = None, src_sampleRate = None,
      src_latency = None, src_active_area = None, src_activeArea = None,
      src_manufacturer = None, src_model = None, src_serial_no = None, src_serialNo = None,
      src_specification_ref = None, src_specificationRef = None, src_description = None,
      src_properties = []\<rparr>"

text \<open>
  \<^verbatim>\<open>read_timestamp\<close> stores a float in the field \<^verbatim>\<open>time\<close>, and the time string and the
  time offset in the attributes \<^verbatim>\<open>timeString\<close> and \<^verbatim>\<open>timeOffset\<close>; the declared fields
  \<^verbatim>\<open>time_string\<close> and \<^verbatim>\<open>time_offset\<close> keep their initial values.
\<close>

datatype timestamp =
  Timestamp (ts_id: string) (ts_parent: "timestamp option") (ts_time: "double option")
    (ts_time_string: string) (ts_timeString: "string option")
    (ts_time_offset: int) (ts_timeOffset: "double option")

datatype "context" =
  Context (ctx_id: string) (ctx_parent: "context option")
    (ctx_ink_source: "ink_source option") (ctx_trace_format: "trace_format option")
    (ctx_brush: "brush option") (ctx_timestamp: "timestamp option")

datatype trace_continuation = Begin | Middle | End | No

datatype trace_type = PenDown | PenUp | Indeterminate

text \<open>
  Traces, groups and views are shared objects: the list a reader returns and the tables
  of the definitions hold the same trace, and \<^verbatim>\<open>prior_trace.next = trace\<close> writes to a
  trace that is already in both. They live in a heap (a list, the address is the
  index); \<open>tr_next\<close>, \<open>tg_traces\<close> and \<open>tv_trace_data\<close> are addresses.
\<close>

record trace =
  tr_id :: string
  tr_channels :: "(string \<times> number list) list"
  tr_intermittent_channels :: "(string \<times> (nat \<times> number) list) list"
  tr_continuation :: trace_continuation
  tr_next :: "nat option"
  tr_context :: "context option"
  tr_brush :: "brush option"
  tr_duration :: "int option"
  tr_time_offset :: "int option"
  tr_type :: trace_type

definition Trace :: trace where
  "Trace = \<lparr>tr_id = [], tr_channels = [], tr_intermittent_channels = [],
            tr_continuation = No, tr_next = None, tr_context = None, tr_brush = None,
            tr_duration = None, tr_time_offset = None, tr_type = PenDown\<rparr>"

record trace_group =
  tg_id :: string
  tg_context :: "context option"
  tg_brush :: "brush option"
  tg_traces :: "nat list"
  tg_annotations :: "annotation list"

definition TraceGroup :: trace_group where
  "TraceGroup = \<lparr>tg_id = [], tg_context = None, tg_brush = None, tg_traces = [],
                 tg_annotations = []\<rparr>"

text \<open>
  \<^verbatim>\<open>read_trace_view\<close> stores the identifier of a view in an attribute \<^verbatim>\<open>ID\<close> of its
  own; the field \<^verbatim>\<open>id\<close> keeps its initial value.
\<close>

record trace_view =
  tv_id :: string
  tv_ID :: "string option"
  tv_trace_data :: nat
  tv_begin :: "int list"
  tv_end :: "int list"

definition TraceView :: "nat \<Rightarrow> trace_view" where
  "TraceView d = \<lparr>tv_id = [], tv_ID = None, tv_trace_data = d, tv_begin = [], tv_end = []\<rparr>"

datatype trace_item = TraceItem trace | GroupItem trace_group | ViewItem trace_view

subsection \<open>reading_types.py: envelopes and definitions\<close>

record brush_envelope =
  be_brush :: brush
  be_parent_ref :: string

definition BrushEnvelope :: brush_envelope where
  "BrushEnvelope = \<lparr>be_brush = Brush [] None [] [], be_parent_ref = []\<rparr>"

record timestamp_envelope =
  te_timestamp :: timestamp
  te_parent_ref :: string

definition TimestampEnvelope :: "string \<Rightarrow> timestamp_envelope" where
  "TimestampEnvelope timestamp_id =
     \<lparr>te_timestamp = Timestamp timestamp_id None None [] None 0 None, te_parent_ref = []\<rparr>"

record context_envelope =
  ce_context :: "context"
  ce_parent_ref :: string
  ce_ink_source_or_ref :: "ink_source + string"
  ce_trace_format_or_ref :: "trace_format + string"
  ce_brush_or_ref :: "brush_envelope + string"
  ce_timestamp_or_ref :: "timestamp_envelope + string"

definition ContextEnvelope :: context_envelope where
  "ContextEnvelope =
     \<lparr>ce_context = Context [] None None None None None, ce_parent_ref = [],
      ce_ink_source_or_ref = Inr [], ce_trace_format_or_ref = Inr [],
      ce_brush_or_ref = Inr [], ce_timestamp_or_ref = Inr []\<rparr>"

text \<open>
  The state of a reader: the tables of \<^verbatim>\<open>Definitions\<close>, the heap of the trace items and
  the warnings logged so far.
\<close>

record rstate =
  contexts :: "(string \<times> context_envelope) list"
  brushes :: "(string \<times> brush_envelope) list"
  ink_sources :: "(string \<times> ink_source) list"
  trace_formats :: "(string \<times> trace_format) list"
  timestamps :: "(string \<times> timestamp_envelope) list"
  traces :: "(string \<times> nat) list"
  trace_groups :: "(string \<times> nat) list"
  trace_views :: "(string \<times> nat) list"
  heap :: "trace_item list"
  warnings :: "warning list"

definition Definitions :: rstate where
  "Definitions = \<lparr>contexts = [], brushes = [], ink_sources = [], trace_formats = [],
                  timestamps = [], traces = [], trace_groups = [], trace_views = [],
                  heap = [], warnings = []\<rparr>"

type_synonym 'a reader = "rstate \<Rightarrow> (py_error + 'a) \<times> rstate"

definition ret :: "'a \<Rightarrow> 'a reader" where
  "ret x = (\<lambda>s. (Inr x, s))"

definition raise :: "py_error \<Rightarrow> 'a reader" where
  "raise e = (\<lambda>s. (Inl e, s))"

definition bnd :: "'a reader \<Rightarrow> ('a \<Rightarrow> 'b reader) \<Rightarrow> 'b reader" where
  "bnd m f = (\<lambda>s. case m s of (Inl e, s') \<Rightarrow> (Inl e, s') | (Inr x, s') \<Rightarrow> f x s')"

definition log_warning :: "warning \<Rightarrow> unit reader" where
  "log_warning w = (\<lambda>s. (Inr (), s\<lparr>warnings := warnings s @ [w]\<rparr>))"

definition gets :: "(rstate \<Rightarrow> 'a) \<Rightarrow> 'a reader" where
  "gets f = (\<lambda>s. (Inr (f s), s))"

definition modify :: "(rstate \<Rightarrow> rstate) \<Rightarrow> unit reader" where
  "modify f = (\<lambda>s. (Inr (), f s))"

text \<open>A \<^verbatim>\<open>for\<close> loop that updates local variables \<open>acc\<close>.\<close>

fun fold_m :: "('a \<Rightarrow> 'b \<Rightarrow> 'b reader) \<Rightarrow> 'a list \<Rightarrow> 'b \<Rightarrow> 'b reader" where
  "fold_m f [] acc = ret acc"
| "fold_m f (x # xs) acc = bnd (f x acc) (fold_m f xs)"


subsection \<open>Reader: channels, trace formats, properties\<close>

definition read_channel :: "element \<Rightarrow> channel option reader" where
  "read_channel element =
     (case get element ''name'' of
        None \<Rightarrow> bnd (log_warning (AttributeRequired ''name'' ''channel'')) (\<lambda>_. ret None)
      | Some name \<Rightarrow>
          (let channel = Channel name;
               channel = (case get_id element of
                            None \<Rightarrow> channel
                          | Some i \<Rightarrow> if i \<noteq> [] then channel\<lparr>ch_id := i\<rparr> else channel);
               channel = (case get element ''type'' of
                            None \<Rightarrow> channel
                          | Some t \<Rightarrow>
                              if t = ''integer'' then channel\<lparr>ch_type := Integer\<rparr>
                              else if t = ''decimal'' then channel\<lparr>ch_type := Decimal\<rparr>
                              else if t = ''double'' then channel\<lparr>ch_type := Double\<rparr>
                              else if t = ''boolean'' then channel\<lparr>ch_type := Boolean\<rparr>
                              else channel);
               channel = (case get element ''default'' of
                            None \<Rightarrow> channel
                          | Some default_str \<Rightarrow>
                              if ch_type channel = Boolean then
                                channel\<lparr>ch_default := DefaultBool
                                  (lower default_str = ''true'' \<or> lower default_str = ''t''
                                   \<or> lower default_str = ''1'')\<rparr>
                              else
                                channel\<lparr>ch_default := DefaultNumber (PyFloat
                                  (case py_float default_str of
                                     None \<Rightarrow> Finite 0
                                   | Some x \<Rightarrow> x))\<rparr>);
               channel = (case get element ''min'' of
                            None \<Rightarrow> channel
                          | Some min_str \<Rightarrow>
                              (case py_float min_str of
                                 None \<Rightarrow> channel
                               | Some x \<Rightarrow> channel\<lparr>ch_min := Some x\<rparr>));
               channel = (case get element ''max'' of
                            None \<Rightarrow> channel
                          | Some max_str \<Rightarrow>
                              (case py_float max_str of
                                 None \<Rightarrow> channel
                               | Some x \<Rightarrow> channel\<lparr>ch_max := Some x\<rparr>));
               channel = (case get element ''orientation'' of
                            None \<Rightarrow> channel
                          | Some orientation \<Rightarrow>
                              if orientation = ''+ve'' then channel\<lparr>ch_orientation := Positive\<rparr>
                              else if orientation = ''-ve''
                              then channel\<lparr>ch_orientation := Negative\<rparr>
                              else channel);
               channel = (case get element ''respectTo'' of
                            None \<Rightarrow> channel
                          | Some respect_to \<Rightarrow> channel\<lparr>ch_respectTo := Some respect_to\<rparr>);
               channel = (case get element ''units'' of
                            None \<Rightarrow> channel
                          | Some units \<Rightarrow> channel\<lparr>ch_units := units\<rparr>)
           in ret (Some channel)))"

text \<open>The two loops of \<^verbatim>\<open>read_trace_format\<close> that append the channels read.\<close>

definition read_channels :: "element list \<Rightarrow> channel list reader" where
  "read_channels channel_elements =
     fold_m (\<lambda>channel_element acc.
               bnd (read_channel channel_element)
                 (\<lambda>channel. ret (case channel of None \<Rightarrow> acc | Some c \<Rightarrow> acc @ [c])))
       channel_elements []"

definition read_trace_format :: "element \<Rightarrow> trace_format reader" where
  "read_trace_format element =
     (let trace_format = TraceFormat;
          trace_format = (case get_id element of
                            None \<Rightarrow> trace_format
                          | Some i \<Rightarrow> if i \<noteq> [] then trace_format\<lparr>tf_id := i\<rparr>
                                      else trace_format)
      in bnd (read_channels (findall_children element ''channel''))
           (\<lambda>regular.
              (case find_child element ''intermittentChannels'' of
                 None \<Rightarrow> ret (trace_format\<lparr>regular_channels := regular\<rparr>)
               | Some intermittent_channels_element \<Rightarrow>
                   bnd (read_channels (findall_children intermittent_channels_element ''channel''))
                     (\<lambda>intermittent.
                        ret (trace_format\<lparr>regular_channels := regular,
                                           intermittent_channels := intermittent\<rparr>)))))"

record source_property =
  sp_name :: string
  sp_value :: string
  sp_units :: "string option"

record channel_property =
  cp_channel :: string
  cp_name :: string
  cp_value :: string
  cp_units :: "string option"

definition read_source_property :: "element \<Rightarrow> source_property option reader" where
  "read_source_property element =
     (case get element ''name'' of
        None \<Rightarrow> bnd (log_warning (AttributeRequired ''name'' ''sourceProperty'')) (\<lambda>_. ret None)
      | Some name \<Rightarrow>
          (case get element ''value'' of
             None \<Rightarrow>
               bnd (log_warning (AttributeRequired ''value'' ''sourceProperty'')) (\<lambda>_. ret None)
           | Some v \<Rightarrow>
               ret (Some \<lparr>sp_name = name, sp_value = v, sp_units = get element ''units''\<rparr>)))"

definition read_channel_property :: "element \<Rightarrow> channel_property option reader" where
  "read_channel_property element =
     (case get element ''channel'' of
        None \<Rightarrow>
          bnd (log_warning (AttributeRequired ''channel'' ''channelProperty'')) (\<lambda>_. ret None)
      | Some channel \<Rightarrow>
          (case get element ''name'' of
             None \<Rightarrow>
               bnd (log_warning (AttributeRequired ''name'' ''channelProperty'')) (\<lambda>_. ret None)
           | Some name \<Rightarrow>
               (case get element ''value'' of
                  None \<Rightarrow>
                    bnd (log_warning (AttributeRequired ''value'' ''channelProperty''))
                      (\<lambda>_. ret None)
                | Some v \<Rightarrow>
                    ret (Some \<lparr>cp_channel = channel, cp_name = name, cp_value = v,
                               cp_units = get element ''units''\<rparr>))))"

subsection \<open>Reader.read\_ink\_source\<close>

text \<open>
  Lines 199 to 210. \<^verbatim>\<open>channel_properties_element.find('inkml:channelProperty', ...)\<close> is
  the first \<^verbatim>\<open>channelProperty\<close> child or \<^verbatim>\<open>None\<close>; the \<^verbatim>\<open>for\<close> statement then iterates
  over that element, which yields its children, and over \<^verbatim>\<open>None\<close> raises
  \<^verbatim>\<open>TypeError\<close>.
\<close>

definition group_channel_property ::
  "channel_property \<Rightarrow> (string \<times> channel_property list) list
     \<Rightarrow> (string \<times> channel_property list) list" where
  "group_channel_property cp channel_properties =
     (case map_of channel_properties (cp_channel cp) of
        Some props \<Rightarrow> AList.update (cp_channel cp) (props @ [cp]) channel_properties
      | None \<Rightarrow> AList.update (cp_channel cp) [cp] channel_properties)"

definition read_channel_properties ::
  "element \<Rightarrow> (string \<times> channel_property list) list reader" where
  "read_channel_properties element =
     (case find_child element ''channelProperties'' of
        None \<Rightarrow> ret []
      | Some channel_properties_element \<Rightarrow>
          (case find_child channel_properties_element ''channelProperty'' of
             None \<Rightarrow> raise TypeError
           | Some channel_property_elements \<Rightarrow>
               fold_m (\<lambda>channel_property_element acc.
                         bnd (read_channel_property channel_property_element)
                           (\<lambda>channel_property.
                              ret (case channel_property of
                                     None \<Rightarrow> acc
                                   | Some cp \<Rightarrow> group_channel_property cp acc)))
                 (el_children channel_property_elements) []))"

text \<open>Lines 213 to 217, for one channel.\<close>

definition assign_channel_properties ::
  "(string \<times> channel_property list) list \<Rightarrow> channel \<Rightarrow> channel" where
  "assign_channel_properties channel_properties channel =
     (case map_of channel_properties (ch_name channel) of
        None \<Rightarrow> channel
      | Some props \<Rightarrow>
          channel\<lparr>ch_properties :=
            fold (\<lambda>prop. AList.update (cp_name prop)
                            \<lparr>prop_value = cp_value prop, prop_units = cp_units prop\<rparr>)
              props (ch_properties channel)\<rparr>)"

definition read_source_properties :: "element \<Rightarrow> (string \<times> property) list reader" where
  "read_source_properties element =
     fold_m (\<lambda>source_property_element acc.
               bnd (read_source_property source_property_element)
                 (\<lambda>source_property.
                    ret (case source_property of
                           None \<Rightarrow> acc
                         | Some sp \<Rightarrow>
                             AList.update (sp_name sp)
                               \<lparr>prop_value = sp_value sp, prop_units = sp_units sp\<rparr> acc)))
       (findall_children element ''sourceProperty'') []"

text \<open>\<^verbatim>\<open>read_sample_rate\<close>, \<^verbatim>\<open>read_latency\<close> and \<^verbatim>\<open>read_active_area\<close>.\<close>

definition read_sample_rate :: "element option \<Rightarrow> sample_rate option reader" where
  "read_sample_rate element =
     (case element of
        None \<Rightarrow> ret None
      | Some el \<Rightarrow>
          (case get el ''value'' of
             None \<Rightarrow> bnd (log_warning (AttributeRequired ''value'' ''sampleRate'')) (\<lambda>_. ret None)
           | Some value_str \<Rightarrow>
               (case py_float value_str of
                  None \<Rightarrow>
                    bnd (log_warning (ExpectedDecimal ''value'' ''sampleRate element''))
                      (\<lambda>_. ret None)
                | Some v \<Rightarrow>
                    ret (Some \<lparr>sr_value = v,
                               sr_uniform = (case get el ''uniform'' of
                                               None \<Rightarrow> True
                                             | Some uniform_str \<Rightarrow> uniform_str = ''true'')\<rparr>))))"

definition read_latency :: "element option \<Rightarrow> latency option reader" where
  "read_latency element =
     (case element of
        None \<Rightarrow> ret None
      | Some el \<Rightarrow>
          (case get el ''value'' of
             None \<Rightarrow> bnd (log_warning (AttributeRequired ''value'' ''latency'')) (\<lambda>_. ret None)
           | Some value_str \<Rightarrow>
               (case py_float value_str of
                  None \<Rightarrow>
                    bnd (log_warning (ExpectedDecimal ''value'' ''latency'')) (\<lambda>_. ret None)
                | Some v \<Rightarrow> ret (Some \<lparr>lat_value = v\<rparr>))))"

definition read_active_area :: "element option \<Rightarrow> active_area option reader" where
  "read_active_area element =
     (case element of
        None \<Rightarrow> ret None
      | Some el \<Rightarrow>
          (case get el ''width'' of
             None \<Rightarrow> bnd (log_warning (AttributeRequired ''width'' ''activeArea'')) (\<lambda>_. ret None)
           | Some width_str \<Rightarrow>
               (case py_float width_str of
                  None \<Rightarrow>
                    bnd (log_warning (ExpectedDecimal ''width'' ''activeArea'')) (\<lambda>_. ret None)
                | Some width \<Rightarrow>
                    (case get el ''height'' of
                       None \<Rightarrow>
                         bnd (log_warning (AttributeRequired ''height'' ''activeArea''))
                           (\<lambda>_. ret None)
                     | Some height_str \<Rightarrow>
                         (case py_float height_str of
                            None \<Rightarrow>
                              bnd (log_warning (ExpectedDecimal ''height'' ''activeArea''))
                                (\<lambda>_. ret None)
                          | Some height \<Rightarrow>
                              ret (Some \<lparr>aa_width = width, aa_height = height,
                                         aa_units = get el ''units'',
                                         aa_size = get el ''size''\<rparr>))))))"

definition read_ink_source :: "element \<Rightarrow> ink_source option reader" where
  "read_ink_source element =
     (case get_id element of
        None \<Rightarrow> bnd (log_warning (AttributeRequired ''xml:id'' ''inkSource'')) (\<lambda>_. ret None)
      | Some i \<Rightarrow>
          (case find_child element ''traceFormat'' of
             None \<Rightarrow> bnd (log_warning NestedTraceFormatRequired) (\<lambda>_. ret None)
           | Some trace_format_element \<Rightarrow>
               bnd (read_trace_format trace_format_element)
                 (\<lambda>trace_format.
                    bnd (read_sample_rate (find_child element ''sampleRate''))
                 (\<lambda>sample_rate.
                    bnd (read_latency (find_child element ''latency''))
                 (\<lambda>latency.
                    bnd (read_active_area (find_child element ''activeArea''))
                 (\<lambda>active_area.
                    bnd (read_source_properties element)
                      (\<lambda>properties.
                         bnd (read_channel_properties element)
                           (\<lambda>channel_properties.
                              ret (Some ((InkSource i
                                     (trace_format
                                        \<lparr>regular_channels :=
                                           map (assign_channel_properties channel_properties)
                                             (regular_channels trace_format),
                                         intermittent_channels :=
                                           map (assign_channel_properties channel_properties)
                                             (intermittent_channels trace_format)\<rparr>))
                                   \<lparr>src_sampleRate := sample_rate,
                                    src_latency := latency,
                                    src_activeArea := active_area,
                                    src_properties := properties,
                                    src_manufacturer := get element ''manufacturer'',
                                    src_model := get element ''model'',
                                    src_serialNo := get element ''serialNo'',
                                    src_specificationRef := get element ''specificationRef'',
                                    src_description := get element ''description''\<rparr>))))))))))"

subsection \<open>Reader: annotations and brushes\<close>

definition read_annotation :: "element \<Rightarrow> annotation option reader" where
  "read_annotation element =
     bnd (if el_tag element = ANNOTATION
          then ret (Some (Annotation (or_empty (el_text element)) Text))
          else if el_tag element = ANNOTATION_XML then
            (let inner_text = get_inner_text element
             in if inner_text \<noteq> [] then ret (Some (Annotation inner_text XML))
                else (case get element ''href'' of
                        Some href \<Rightarrow> ret (Some (Annotation href HRef))
                      | None \<Rightarrow> bnd (log_warning NoContentNorHref) (\<lambda>_. ret None)))
          else raise Exception)
       (\<lambda>created.
          case created of
            None \<Rightarrow> ret None
          | Some annotation \<Rightarrow>
              (let annotation = (case get element ''type'' of
                                   None \<Rightarrow> annotation
                                 | Some t \<Rightarrow> annotation\<lparr>an_type := t\<rparr>);
                   annotation = (case get element ''encoding'' of
                                   None \<Rightarrow> annotation
                                 | Some e \<Rightarrow> annotation\<lparr>an_encoding := e\<rparr>)
               in ret (Some (annotation\<lparr>an_attributes :=
                     fold (\<lambda>(name, v) attributes.
                             if name = ''href'' \<or> name = ''type'' \<or> name = ''encoding''
                             then attributes
                             else AList.update name v attributes)
                       (el_attrib element) (an_attributes annotation)\<rparr>))))"

definition read_annotations :: "element \<Rightarrow> annotation list reader" where
  "read_annotations container =
     fold_m (\<lambda>item annotations.
               if el_tag item = ANNOTATION \<or> el_tag item = ANNOTATION_XML then
                 bnd (read_annotation item)
                   (\<lambda>annotation.
                      ret (case annotation of
                             None \<Rightarrow> annotations
                           | Some a \<Rightarrow> annotations @ [a]))
               else ret annotations)
       (el_children container) []"

record brush_property =
  bp_name :: string
  bp_value :: string
  bp_units :: "string option"
  bp_annotations :: "annotation list"

definition read_brush_property :: "element \<Rightarrow> brush_property option reader" where
  "read_brush_property element =
     (case get element ''name'' of
        None \<Rightarrow> bnd (log_warning (AttributeRequired ''name'' ''brushProperty'')) (\<lambda>_. ret None)
      | Some name \<Rightarrow>
          (case get element ''value'' of
             None \<Rightarrow>
               bnd (log_warning (AttributeRequired ''value'' ''brushProperty'')) (\<lambda>_. ret None)
           | Some v \<Rightarrow>
               bnd (read_annotations element)
                 (\<lambda>annotations.
                    ret (Some \<lparr>bp_name = name, bp_value = v, bp_units = get element ''units'',
                               bp_annotations = annotations\<rparr>))))"

definition read_brush :: "element \<Rightarrow> brush_envelope reader" where
  "read_brush element =
     (let brush_id = (case get_id element of
                        None \<Rightarrow> []
                      | Some i \<Rightarrow> i);
          parent_ref = (case get element ''brushRef'' of
                          None \<Rightarrow> []
                        | Some brush_ref \<Rightarrow> brush_ref)
      in bnd (fold_m (\<lambda>brush_property_element properties.
                        bnd (read_brush_property brush_property_element)
                          (\<lambda>brush_property.
                             ret (case brush_property of
                                    None \<Rightarrow> properties
                                  | Some bp \<Rightarrow>
                                      AList.update (bp_name bp)
                                        \<lparr>ap_value = bp_value bp, ap_units = bp_units bp,
                                         ap_annotations = bp_annotations bp\<rparr> properties)))
                (findall_children element ''brushProperty'') [])
           (\<lambda>properties.
              bnd (read_annotations element)
                (\<lambda>annotations.
                   ret \<lparr>be_brush = Brush brush_id None properties annotations,
                        be_parent_ref = parent_ref\<rparr>)))"

subsection \<open>Reader.read\_timestamp\<close>

text \<open>The assignments to a timestamp.\<close>

definition set_time :: "double \<Rightarrow> timestamp \<Rightarrow> timestamp" where
  "set_time x ts =
     (case ts of Timestamp i p tm s1 s2 o1 o2 \<Rightarrow> Timestamp i p (Some x) s1 s2 o1 o2)"

definition set_timeString :: "string \<Rightarrow> timestamp \<Rightarrow> timestamp" where
  "set_timeString x ts =
     (case ts of Timestamp i p tm s1 s2 o1 o2 \<Rightarrow> Timestamp i p tm s1 (Some x) o1 o2)"

definition set_timeOffset :: "double \<Rightarrow> timestamp \<Rightarrow> timestamp" where
  "set_timeOffset x ts =
     (case ts of Timestamp i p tm s1 s2 o1 o2 \<Rightarrow> Timestamp i p tm s1 s2 o1 (Some x))"

definition read_timestamp :: "element \<Rightarrow> timestamp_envelope option reader" where
  "read_timestamp element =
     (case get_id element of
        None \<Rightarrow> bnd (log_warning (AttributeRequired ''xml:id'' ''parent'')) (\<lambda>_. ret None)
      | Some i \<Rightarrow>
          (let envelope = TimestampEnvelope i
           in (case (case get element ''time'' of
                       None \<Rightarrow> None
                     | Some time_str \<Rightarrow> py_float time_str) of
                 Some time \<Rightarrow>
                   ret (Some (envelope\<lparr>te_timestamp := set_time time (te_timestamp envelope)\<rparr>))
               | None \<Rightarrow>
                   (case get element ''timeString'' of
                      Some time_string \<Rightarrow>
                        ret (Some (envelope\<lparr>te_timestamp :=
                                     set_timeString time_string (te_timestamp envelope)\<rparr>))
                    | None \<Rightarrow>
                        (let envelope = (case get element ''timestampRef'' of
                                           None \<Rightarrow> envelope
                                         | Some timestamp_ref \<Rightarrow>
                                             envelope\<lparr>te_parent_ref := timestamp_ref\<rparr>);
                             envelope = (case get element ''timeOffset'' of
                                           None \<Rightarrow> envelope
                                         | Some time_offset_str \<Rightarrow>
                                             (case py_float time_offset_str of
                                                None \<Rightarrow> envelope
                                              | Some x \<Rightarrow>
                                                  envelope\<lparr>te_timestamp :=
                                                    set_timeOffset x (te_timestamp envelope)\<rparr>))
                         in ret (Some envelope))))))"

subsection \<open>Reader.read\_context\<close>

definition read_context :: "element \<Rightarrow> context_envelope reader" where
  "read_context element =
     (let envelope = ContextEnvelope;
          envelope = (case get_id element of
                        None \<Rightarrow> envelope
                      | Some i \<Rightarrow>
                          if i \<noteq> []
                          then envelope\<lparr>ce_context := Context i None None None None None\<rparr>
                          else envelope);
          envelope = (case get element ''contextRef'' of
                        None \<Rightarrow> envelope
                      | Some r \<Rightarrow> if r \<noteq> [] then envelope\<lparr>ce_parent_ref := r\<rparr> else envelope);
          envelope = (case get element ''traceFormatRef'' of
                        None \<Rightarrow> envelope
                      | Some r \<Rightarrow>
                          if r \<noteq> [] then envelope\<lparr>ce_trace_format_or_ref := Inr r\<rparr>
                          else envelope);
          envelope = (case get element ''inkSourceRef'' of
                        None \<Rightarrow> envelope
                      | Some r \<Rightarrow>
                          if r \<noteq> [] then envelope\<lparr>ce_ink_source_or_ref := Inr r\<rparr>
                          else envelope);
          envelope = (case get element ''brushRef'' of
                        None \<Rightarrow> envelope
                      | Some r \<Rightarrow>
                          if r \<noteq> [] then envelope\<lparr>ce_brush_or_ref := Inr r\<rparr> else envelope);
          envelope = (case get element ''timestampRef'' of
                        None \<Rightarrow> envelope
                      | Some r \<Rightarrow>
                          if r \<noteq> [] then envelope\<lparr>ce_timestamp_or_ref := Inr r\<rparr>
                          else envelope)
      in bnd (case find_child element ''traceFormat'' of
                None \<Rightarrow> ret envelope
              | Some trace_format_element \<Rightarrow>
                  bnd (read_trace_format trace_format_element)
                    (\<lambda>trace_format. ret (envelope\<lparr>ce_trace_format_or_ref := Inl trace_format\<rparr>)))
           (\<lambda>envelope.
              bnd (case find_child element ''inkSource'' of
                     None \<Rightarrow> ret envelope
                   | Some ink_source_element \<Rightarrow>
                       bnd (read_ink_source ink_source_element)
                         (\<lambda>ink_source.
                            ret (case ink_source of
                                   None \<Rightarrow> envelope
                                 | Some src \<Rightarrow> envelope\<lparr>ce_ink_source_or_ref := Inl src\<rparr>)))
                (\<lambda>envelope.
                   bnd (case find_child element ''brush'' of
                          None \<Rightarrow> ret envelope
                        | Some brush_element \<Rightarrow>
                            bnd (read_brush brush_element)
                              (\<lambda>brush. ret (envelope\<lparr>ce_brush_or_ref := Inl brush\<rparr>)))
                     (\<lambda>envelope.
                        (case find_child element ''timestamp'' of
                           None \<Rightarrow> ret envelope
                         | Some timestamp_element \<Rightarrow>
                             bnd (read_timestamp timestamp_element)
                               (\<lambda>timestamp.
                                  ret (case timestamp of
                                         None \<Rightarrow> envelope
                                       | Some ts \<Rightarrow>
                                           envelope\<lparr>ce_timestamp_or_ref := Inl ts\<rparr>)))))))"


subsection \<open>Reader.get\_trace\_format\<close>

text \<open>The two \<^verbatim>\<open>while ctx is not None\<close> loops.\<close>

fun walk_trace_format :: "context \<Rightarrow> trace_format option" where
  "walk_trace_format (Context i parent src tf br ts) =
     (case tf of
        Some t \<Rightarrow> Some t
      | None \<Rightarrow> (case parent of None \<Rightarrow> None | Some p \<Rightarrow> walk_trace_format p))"

fun walk_ink_source :: "context \<Rightarrow> trace_format option" where
  "walk_ink_source (Context i parent src tf br ts) =
     (case src of
        Some source \<Rightarrow> Some (src_trace_format source)
      | None \<Rightarrow> (case parent of None \<Rightarrow> None | Some p \<Rightarrow> walk_ink_source p))"

text \<open>\<^verbatim>\<open>a or b\<close> on two optional objects, each true when it is not \<^verbatim>\<open>None\<close>.\<close>

definition py_or :: "'a option \<Rightarrow> 'a option \<Rightarrow> 'a option" where
  "py_or a b = (case a of None \<Rightarrow> b | Some x \<Rightarrow> Some x)"

definition get_trace_format :: "trace \<Rightarrow> context option \<Rightarrow> trace_format" where
  "get_trace_format trace external_context =
     (case py_or (tr_context trace) external_context of
        None \<Rightarrow> get_default_trace_format
      | Some ctx \<Rightarrow>
          (case walk_trace_format ctx of
             Some tf \<Rightarrow> tf
           | None \<Rightarrow>
               (case walk_ink_source ctx of
                  Some tf \<Rightarrow> tf
                | None \<Rightarrow> get_default_trace_format)))"

subsection \<open>Reader.read\_trace\<close>

text \<open>
  \<^verbatim>\<open>int(s)\<close>: surrounding white space, a sign, and digits that single underscores may
  separate. \<open>None\<close> is \<^verbatim>\<open>ValueError\<close>. The bound that the interpreter puts on the number
  of digits (4300 unless configured otherwise) is left out.
\<close>

fun no_double_underscore :: "string \<Rightarrow> bool" where
  "no_double_underscore (a # b # cs) =
     ((a \<noteq> CHR ''_'' \<or> b \<noteq> CHR ''_'') \<and> no_double_underscore (b # cs))"
| "no_double_underscore cs = True"

definition py_int :: "string \<Rightarrow> int option" where
  "py_int s =
     (case split_sign (strip_number s) of
        (neg, body) \<Rightarrow>
          if body \<noteq> [] \<and> list_all (\<lambda>c. is_digit c \<or> c = CHR ''_'') body
             \<and> is_digit (hd body) \<and> is_digit (last body) \<and> no_double_underscore body
          then Some ((if neg then - 1 else 1)
                     * digits_val (filter (\<lambda>c. c \<noteq> CHR ''_'') body))
          else None)"

text \<open>
  The lookup of a \<^verbatim>\<open>contextRef\<close> or \<^verbatim>\<open>brushRef\<close> attribute, as \<^verbatim>\<open>read_trace\<close> and
  \<^verbatim>\<open>read_trace_group\<close> both write it: \<open>Abort\<close> is \<^verbatim>\<open>return None\<close>, \<open>Unset\<close> leaves the
  field as it is.
\<close>

datatype 'a lookup = Abort | Unset | Found 'a

definition lookup_ref ::
  "bool \<Rightarrow> bool \<Rightarrow> string \<Rightarrow> string \<Rightarrow> string option \<Rightarrow> (rstate \<Rightarrow> (string \<times> 'a) list)
     \<Rightarrow> 'a lookup reader" where
  "lookup_ref assume_local_refs require_refs kind owner attr table =
     (case attr of
        None \<Rightarrow> ret Unset
      | Some r \<Rightarrow>
          if is_local_id r \<or> assume_local_refs then
            bnd (gets table)
              (\<lambda>t. case map_of t (to_local_id r) of
                      Some v \<Rightarrow> ret (Found v)
                    | None \<Rightarrow>
                        bnd (log_warning (CouldNotFind kind r owner))
                          (\<lambda>_. ret (if require_refs then Abort else Unset)))
          else bnd (log_warning (ExternalReference r)) (\<lambda>_. ret Unset))"

text \<open>
  The steps of \<^verbatim>\<open>read_trace\<close> work on the trace under construction; the flag of a
  result is \<open>False\<close> when the step ends in \<^verbatim>\<open>return None\<close>.
\<close>

definition and_then ::
  "(trace \<times> bool) reader \<Rightarrow> (trace \<Rightarrow> (trace \<times> bool) reader) \<Rightarrow> (trace \<times> bool) reader" where
  "and_then m f = bnd m (\<lambda>(t, ok). if ok then f t else ret (t, False))"

definition trace_context_ref :: "bool \<Rightarrow> bool \<Rightarrow> element \<Rightarrow> trace \<Rightarrow> (trace \<times> bool) reader" where
  "trace_context_ref assume_local_refs require_refs element trace =
     bnd (lookup_ref assume_local_refs require_refs ''context'' ''trace''
            (get element ''contextRef'') contexts)
       (\<lambda>r. case r of
               Abort \<Rightarrow> ret (trace, False)
             | Unset \<Rightarrow> ret (trace, True)
             | Found env \<Rightarrow> ret (trace\<lparr>tr_context := Some (ce_context env)\<rparr>, True))"

definition trace_brush_ref :: "bool \<Rightarrow> bool \<Rightarrow> element \<Rightarrow> trace \<Rightarrow> (trace \<times> bool) reader" where
  "trace_brush_ref assume_local_refs require_refs element trace =
     bnd (lookup_ref assume_local_refs require_refs ''brush'' ''trace''
            (get element ''brushRef'') brushes)
       (\<lambda>r. case r of
               Abort \<Rightarrow> ret (trace, False)
             | Unset \<Rightarrow> ret (trace, True)
             | Found env \<Rightarrow> ret (trace\<lparr>tr_brush := Some (be_brush env)\<rparr>, True))"

definition trace_continuation_attr :: "element \<Rightarrow> trace \<Rightarrow> (trace \<times> bool) reader" where
  "trace_continuation_attr element trace =
     (case get element ''continuation'' of
        None \<Rightarrow> ret (trace, True)
      | Some continuation \<Rightarrow>
          if continuation = ''begin'' then ret (trace\<lparr>tr_continuation := Begin\<rparr>, True)
          else if continuation = ''middle'' then ret (trace\<lparr>tr_continuation := Middle\<rparr>, True)
          else if continuation = ''end'' then ret (trace\<lparr>tr_continuation := End\<rparr>, True)
          else bnd (log_warning (UnexpectedContinuation continuation)) (\<lambda>_. ret (trace, True)))"

text \<open>\<^verbatim>\<open>prior_trace.next = trace\<close>, the new trace being at \<open>addr\<close>.\<close>

definition set_next :: "nat \<Rightarrow> nat \<Rightarrow> rstate \<Rightarrow> rstate" where
  "set_next prior addr s =
     (if prior < length (heap s) then
        (case heap s ! prior of
           TraceItem t \<Rightarrow> s\<lparr>heap := (heap s)[prior := TraceItem (t\<lparr>tr_next := Some addr\<rparr>)]\<rparr>
         | _ \<Rightarrow> s)
      else s)"

definition trace_prior_ref ::
  "bool \<Rightarrow> bool \<Rightarrow> element \<Rightarrow> nat \<Rightarrow> trace \<Rightarrow> (trace \<times> bool) reader" where
  "trace_prior_ref assume_local_refs require_refs element addr trace =
     (if tr_continuation trace = Middle \<or> tr_continuation trace = End then
        (case get element ''priorRef'' of
           None \<Rightarrow>
             bnd (log_warning (PriorRefRequired (or_empty (get element ''continuation''))))
               (\<lambda>_. ret (trace, False))
         | Some prior_ref \<Rightarrow>
             if prior_ref = [] then
               bnd (log_warning (PriorRefRequired (or_empty (get element ''continuation''))))
                 (\<lambda>_. ret (trace, False))
             else if \<not> is_local_id prior_ref \<and> \<not> assume_local_refs then
               bnd (log_warning (ExternalReference prior_ref)) (\<lambda>_. ret (trace, False))
             else
               bnd (gets traces)
                 (\<lambda>t. case map_of t (to_local_id prior_ref) of
                         Some prior_trace \<Rightarrow>
                           bnd (modify (set_next prior_trace addr)) (\<lambda>_. ret (trace, True))
                       | None \<Rightarrow>
                           bnd (log_warning (CouldNotFind ''prior trace'' prior_ref ''trace''))
                             (\<lambda>_. ret (trace, \<not> require_refs))))
      else ret (trace, True))"

definition move_data ::
  "regular_channel list \<Rightarrow> intermittent_channel list \<Rightarrow> trace \<Rightarrow> trace" where
  "move_data regular intermittent trace =
     trace\<lparr>tr_channels :=
             fold (\<lambda>ch. AList.update (rc_name ch) (rc_values ch)) regular (tr_channels trace),
           tr_intermittent_channels :=
             fold (\<lambda>ch. AList.update (ic_name ch) (ic_index_values ch)) intermittent
               (tr_intermittent_channels trace)\<rparr>"

definition trace_content :: "element \<Rightarrow> context option \<Rightarrow> trace \<Rightarrow> (trace \<times> bool) reader" where
  "trace_content element ctx trace =
     (case el_text element of
        None \<Rightarrow> ret (trace, True)
      | Some content \<Rightarrow>
          (case parse_trace_content content (get_trace_format trace ctx) of
             Raise e \<Rightarrow> raise e
           | Warn w \<Rightarrow>
               bnd (log_warning w)
                 (\<lambda>_. bnd (log_warning CouldNotParseTraceContent) (\<lambda>_. ret (trace, False)))
           | Ok (regular, intermittent) \<Rightarrow> ret (move_data regular intermittent trace, True)))"

definition trace_id_attr :: "element \<Rightarrow> trace \<Rightarrow> (trace \<times> bool) reader" where
  "trace_id_attr element trace =
     (case (case get_id element of None \<Rightarrow> None | Some i \<Rightarrow> if i \<noteq> [] then Some i else None) of
        Some i \<Rightarrow> ret (trace\<lparr>tr_id := i\<rparr>, True)
      | None \<Rightarrow>
          if tr_continuation trace = Begin \<or> tr_continuation trace = Middle then
            bnd (log_warning (ContinuationWithoutId (or_empty (get element ''continuation''))))
              (\<lambda>_. ret (trace, True))
          else ret (trace, True))"

definition trace_remaining_attrs :: "element \<Rightarrow> trace \<Rightarrow> trace" where
  "trace_remaining_attrs element trace =
     (let trace = (case get element ''type'' of
                     None \<Rightarrow> trace
                   | Some trace_type \<Rightarrow>
                       if trace_type = ''penDown'' then trace\<lparr>tr_type := PenDown\<rparr>
                       else if trace_type = ''penUp'' then trace\<lparr>tr_type := PenUp\<rparr>
                       else if trace_type = ''indeterminate''
                       then trace\<lparr>tr_type := Indeterminate\<rparr>
                       else trace);
          trace = (case get element ''duration'' of
                     None \<Rightarrow> trace
                   | Some duration_str \<Rightarrow>
                       if duration_str \<noteq> [] then
                         (case py_int duration_str of
                            None \<Rightarrow> trace
                          | Some d \<Rightarrow> trace\<lparr>tr_duration := Some d\<rparr>)
                       else trace);
          trace = (case get element ''timeOffset'' of
                     None \<Rightarrow> trace
                   | Some time_offset_str \<Rightarrow>
                       if time_offset_str \<noteq> [] then
                         (case py_int time_offset_str of
                            None \<Rightarrow> trace
                          | Some d \<Rightarrow> trace\<lparr>tr_time_offset := Some d\<rparr>)
                       else trace)
      in trace)"

text \<open>A new object on the heap; its address is returned.\<close>

definition alloc :: "trace_item \<Rightarrow> nat reader" where
  "alloc item = (\<lambda>s. (Inr (length (heap s)), s\<lparr>heap := heap s @ [item]\<rparr>))"

definition store :: "nat \<Rightarrow> trace_item \<Rightarrow> unit reader" where
  "store addr item = modify (\<lambda>s. s\<lparr>heap := (heap s)[addr := item]\<rparr>)"

text \<open>Lines 862 to 921 of \<^verbatim>\<open>read_trace\<close>: the references of the trace.\<close>

definition read_trace_refs ::
  "bool \<Rightarrow> bool \<Rightarrow> element \<Rightarrow> nat \<Rightarrow> (trace \<times> bool) reader" where
  "read_trace_refs assume_local_refs require_refs element addr =
     and_then (trace_context_ref assume_local_refs require_refs element Trace)
       (\<lambda>trace. and_then (trace_brush_ref assume_local_refs require_refs element trace)
       (\<lambda>trace. and_then (trace_continuation_attr element trace)
       (\<lambda>trace. trace_prior_ref assume_local_refs require_refs element addr trace)))"

text \<open>
  \<^verbatim>\<open>read_trace\<close>: the result is the address of the trace and the trace, or \<open>None\<close>.
  The trace object is on the heap from \<^verbatim>\<open>trace = Ink.Trace()\<close> on, whatever the
  function returns; what the steps wrote to it is stored there at the end.
\<close>

definition read_trace ::
  "bool \<Rightarrow> element \<Rightarrow> context option \<Rightarrow> bool \<Rightarrow> (nat \<times> trace) option reader" where
  "read_trace assume_local_refs element ctx require_refs =
     bnd (alloc (TraceItem Trace))
       (\<lambda>addr.
          bnd (and_then (read_trace_refs assume_local_refs require_refs element addr)
                 (\<lambda>trace. and_then (trace_content element ctx trace)
                 (\<lambda>trace. and_then (trace_id_attr element trace)
                 (\<lambda>trace. ret (trace_remaining_attrs element trace, True)))))
            (\<lambda>(trace, ok).
               bnd (store addr (TraceItem trace))
                 (\<lambda>_. ret (if ok then Some (addr, trace) else None))))"

subsection \<open>Reader.read\_trace\_group, read\_trace\_view, read\_traces\<close>

definition read_trace_group :: "bool \<Rightarrow> element \<Rightarrow> bool \<Rightarrow> trace_group option reader" where
  "read_trace_group assume_local_refs element require_refs =
     bnd (lookup_ref assume_local_refs require_refs ''context'' ''traceGroup''
            (get element ''contextRef'') contexts)
       (\<lambda>c. case c of
               Abort \<Rightarrow> ret None
             | _ \<Rightarrow>
                 bnd (lookup_ref assume_local_refs require_refs ''brush'' ''traceGroup''
                        (get element ''brushRef'') brushes)
                   (\<lambda>b. case b of
                           Abort \<Rightarrow> ret None
                         | _ \<Rightarrow>
                             bnd (read_annotations element)
                               (\<lambda>annotations.
                                  ret (Some (TraceGroup
                                    \<lparr>tg_id := (case get_id element of None \<Rightarrow> [] | Some i \<Rightarrow> i),
                                     tg_context := (case c of
                                                      Found env \<Rightarrow> Some (ce_context env)
                                                    | _ \<Rightarrow> None),
                                     tg_brush := (case b of
                                                    Found env \<Rightarrow> Some (be_brush env)
                                                  | _ \<Rightarrow> None),
                                     tg_annotations := annotations\<rparr>)))))"

text \<open>\<^verbatim>\<open>[int(v) for v in s.split(':')]\<close>, \<open>None\<close> when one \<^verbatim>\<open>int\<close> raises.\<close>

fun all_some :: "'a option list \<Rightarrow> 'a list option" where
  "all_some [] = Some []"
| "all_some (x # xs) =
     (case x of
        None \<Rightarrow> None
      | Some v \<Rightarrow> (case all_some xs of None \<Rightarrow> None | Some vs \<Rightarrow> Some (v # vs)))"

definition read_indices :: "string \<Rightarrow> string \<Rightarrow> element \<Rightarrow> int list reader" where
  "read_indices key label element =
     (case get element key of
        None \<Rightarrow> ret []
      | Some str \<Rightarrow>
          if str \<noteq> [] then
            (case all_some (map py_int (split_on CHR '':'' str)) of
               Some vs \<Rightarrow> ret vs
             | None \<Rightarrow> bnd (log_warning (BadIntegers label str)) (\<lambda>_. ret []))
          else ret [])"

definition read_trace_view :: "bool \<Rightarrow> element \<Rightarrow> trace_view option reader" where
  "read_trace_view assume_local_refs element =
     (case get element ''traceDataRef'' of
        None \<Rightarrow>
          bnd (log_warning (AttributeRequired ''traceDataRef'' ''traceView'')) (\<lambda>_. ret None)
      | Some trace_data_ref \<Rightarrow>
          if \<not> is_local_id trace_data_ref \<and> \<not> assume_local_refs then
            bnd (log_warning (ExternalReference trace_data_ref)) (\<lambda>_. ret None)
          else
            bnd (gets (\<lambda>s. case map_of (traces s) (to_local_id trace_data_ref) of
                              Some a \<Rightarrow> Some a
                            | None \<Rightarrow>
                                (case map_of (trace_groups s) (to_local_id trace_data_ref) of
                                   Some a \<Rightarrow> Some a
                                 | None \<Rightarrow>
                                     map_of (trace_views s) (to_local_id trace_data_ref))))
              (\<lambda>found.
                 case found of
                   None \<Rightarrow>
                     bnd (log_warning (CouldNotFind ''trace data'' trace_data_ref ''traceView''))
                       (\<lambda>_. ret None)
                 | Some trace_data \<Rightarrow>
                     bnd (read_indices ''from'' ''from'' element)
                       (\<lambda>begin_values.
                          bnd (read_indices ''to'' ''to'' element)
                            (\<lambda>end_values.
                               ret (Some ((TraceView trace_data)
                                 \<lparr>tv_ID := (case get_id element of
                                              None \<Rightarrow> None
                                            | Some i \<Rightarrow> if i \<noteq> [] then Some i else None),
                                  tv_begin := begin_values,
                                  tv_end := end_values\<rparr>))))))"

text \<open>
  \<^verbatim>\<open>read_traces\<close> over the children of the container. The result lists the addresses
  of the items appended to \<^verbatim>\<open>traces\<close>.
\<close>

fun read_trace_items ::
  "bool \<Rightarrow> element list \<Rightarrow> context option \<Rightarrow> nat list reader" where
  "read_trace_items assume_local_refs [] ctx s = (Inr [], s)"
| "read_trace_items assume_local_refs (Element tg attrs txt tail kids # rest) ctx s =
     (if tg = TRACE then
        (case read_trace assume_local_refs (Element tg attrs txt tail kids) ctx True s of
           (Inl e, s1) \<Rightarrow> (Inl e, s1)
         | (Inr None, s1) \<Rightarrow>
             read_trace_items assume_local_refs rest ctx
               (s1\<lparr>warnings := warnings s1 @ [CouldNotReadTrace]\<rparr>)
         | (Inr (Some (addr, trace)), s1) \<Rightarrow>
             (case read_trace_items assume_local_refs rest ctx
                     (if tr_id trace \<noteq> []
                      then s1\<lparr>traces := AList.update (tr_id trace) addr (traces s1)\<rparr>
                      else s1) of
                (Inl e, s2) \<Rightarrow> (Inl e, s2)
              | (Inr items, s2) \<Rightarrow> (Inr (addr # items), s2)))
      else if tg = TRACE_GROUP then
        (case read_trace_group assume_local_refs (Element tg attrs txt tail kids) True s of
           (Inl e, s1) \<Rightarrow> (Inl e, s1)
         | (Inr None, s1) \<Rightarrow>
             read_trace_items assume_local_refs rest ctx
               (s1\<lparr>warnings := warnings s1 @ [CouldNotReadTraceGroup]\<rparr>)
         | (Inr (Some grp), s1) \<Rightarrow>
             (case read_trace_items assume_local_refs kids (py_or (tg_context grp) ctx)
                     (s1\<lparr>heap := heap s1 @ [GroupItem grp]\<rparr>) of
                (Inl e, s2) \<Rightarrow> (Inl e, s2)
              | (Inr members, s2) \<Rightarrow>
                  (case read_trace_items assume_local_refs rest ctx
                          (let s3 = s2\<lparr>heap := (heap s2)[length (heap s1) :=
                                                   GroupItem (grp\<lparr>tg_traces := members\<rparr>)]\<rparr>
                           in if tg_id grp \<noteq> []
                              then s3\<lparr>trace_groups :=
                                        AList.update (tg_id grp) (length (heap s1))
                                          (trace_groups s3)\<rparr>
                              else s3) of
                     (Inl e, s4) \<Rightarrow> (Inl e, s4)
                   | (Inr items, s4) \<Rightarrow> (Inr (length (heap s1) # items), s4))))
      else if tg = TRACE_VIEW then
        (case read_trace_view assume_local_refs (Element tg attrs txt tail kids) s of
           (Inl e, s1) \<Rightarrow> (Inl e, s1)
         | (Inr None, s1) \<Rightarrow>
             read_trace_items assume_local_refs rest ctx
               (s1\<lparr>warnings := warnings s1 @ [CouldNotReadTraceView]\<rparr>)
         | (Inr (Some view), s1) \<Rightarrow>
             (case read_trace_items assume_local_refs rest ctx
                     (let s2 = s1\<lparr>heap := heap s1 @ [ViewItem view]\<rparr>
                      in if tv_id view \<noteq> []
                         then s2\<lparr>trace_views :=
                                   AList.update (tv_id view) (length (heap s1)) (trace_views s2)\<rparr>
                         else s2) of
                (Inl e, s3) \<Rightarrow> (Inl e, s3)
              | (Inr items, s3) \<Rightarrow> (Inr (length (heap s1) # items), s3)))
      else read_trace_items assume_local_refs rest ctx s)"

definition read_traces :: "bool \<Rightarrow> element \<Rightarrow> context option \<Rightarrow> nat list reader" where
  "read_traces assume_local_refs container ctx =
     read_trace_items assume_local_refs (el_children container) ctx"


subsection \<open>Reader.read\_definitions\<close>

definition for_each :: "'a list \<Rightarrow> ('a \<Rightarrow> unit reader) \<Rightarrow> unit reader" where
  "for_each xs f = fold_m (\<lambda>x _. f x) xs ()"

text \<open>Lines 83 to 120: the loops over one \<^verbatim>\<open>definitions\<close> element.\<close>

definition read_definitions_items :: "element \<Rightarrow> unit reader" where
  "read_definitions_items element =
     bnd (for_each (findall_children element ''inkSource'')
            (\<lambda>ink_source_element.
               bnd (read_ink_source ink_source_element)
                 (\<lambda>ink_source.
                    case ink_source of
                      None \<Rightarrow> ret ()
                    | Some src \<Rightarrow>
                        modify (\<lambda>s.
                          (let s1 = s\<lparr>ink_sources := AList.update (src_id src) src (ink_sources s)\<rparr>
                           in if tf_id (src_trace_format src) \<noteq> []
                              then s1\<lparr>trace_formats :=
                                        AList.update (tf_id (src_trace_format src))
                                          (src_trace_format src) (trace_formats s1)\<rparr>
                              else s1)))))
       (\<lambda>_. bnd (for_each (findall_children element ''brush'')
                   (\<lambda>brush_element.
                      bnd (read_brush brush_element)
                        (\<lambda>brush.
                           if brush_id (be_brush brush) = [] then ret ()
                           else modify (\<lambda>s. s\<lparr>brushes :=
                                  AList.update (brush_id (be_brush brush)) brush (brushes s)\<rparr>))))
          (\<lambda>_. bnd (for_each (findall_children element ''traceFormat'')
                  (\<lambda>trace_format_element.
                     bnd (read_trace_format trace_format_element)
                       (\<lambda>trace_format.
                          if tf_id trace_format = [] then ret ()
                          else modify (\<lambda>s. s\<lparr>trace_formats :=
                                 AList.update (tf_id trace_format) trace_format
                                   (trace_formats s)\<rparr>))))
          (\<lambda>_. for_each (findall_children element ''timestamp'')
                  (\<lambda>timestamp_element.
                     bnd (read_timestamp timestamp_element)
                       (\<lambda>timestamp.
                          case timestamp of
                            None \<Rightarrow> ret ()
                          | Some ts \<Rightarrow>
                              modify (\<lambda>s. s\<lparr>timestamps :=
                                AList.update (ts_id (te_timestamp ts)) ts (timestamps s)\<rparr>))))))"

text \<open>Lines 122 to 130: the contexts inside one \<^verbatim>\<open>definitions\<close> element.\<close>

definition read_definitions_contexts :: "element \<Rightarrow> unit reader" where
  "read_definitions_contexts element =
     for_each (findall_children element ''context'')
       (\<lambda>context_element.
          bnd (read_context context_element)
            (\<lambda>envelope.
               if ctx_id (ce_context envelope) = [] then ret ()
               else modify (\<lambda>s. s\<lparr>contexts :=
                      AList.update (ctx_id (ce_context envelope)) envelope (contexts s)\<rparr>)))"

text \<open>
  Lines 132 to 139: the contexts outside of \<^verbatim>\<open>definitions\<close>. The assignment sits under
  \<^verbatim>\<open>if len(context.id) == 0:\<close>.
\<close>

definition read_toplevel_contexts :: "element \<Rightarrow> unit reader" where
  "read_toplevel_contexts root_element =
     for_each (findall_children root_element ''context'')
       (\<lambda>context_element.
          bnd (read_context context_element)
            (\<lambda>envelope.
               if ctx_id (ce_context envelope) = []
               then modify (\<lambda>s. s\<lparr>contexts :=
                      AList.update (ctx_id (ce_context envelope)) envelope (contexts s)\<rparr>)
               else ret ()))"

text \<open>Lines 141 to 157, for one context.\<close>

definition register_nested :: "context_envelope \<Rightarrow> rstate \<Rightarrow> rstate" where
  "register_nested envelope s =
     (let s1 = (case ce_ink_source_or_ref envelope of
                  Inl src \<Rightarrow>
                    if src_id src \<noteq> [] \<and> map_of (ink_sources s) (src_id src) = None
                    then s\<lparr>ink_sources := AList.update (src_id src) src (ink_sources s)\<rparr>
                    else s
                | Inr r \<Rightarrow> s);
          s2 = (case ce_trace_format_or_ref envelope of
                  Inl tf \<Rightarrow>
                    if tf_id tf \<noteq> [] \<and> map_of (trace_formats s1) (tf_id tf) = None
                    then s1\<lparr>trace_formats := AList.update (tf_id tf) tf (trace_formats s1)\<rparr>
                    else s1
                | Inr r \<Rightarrow> s1);
          s3 = (case ce_brush_or_ref envelope of
                  Inl b \<Rightarrow>
                    if brush_id (be_brush b) \<noteq> []
                       \<and> map_of (brushes s2) (brush_id (be_brush b)) = None
                    then s2\<lparr>brushes := AList.update (brush_id (be_brush b)) b (brushes s2)\<rparr>
                    else s2
                | Inr r \<Rightarrow> s2)
      in (case ce_timestamp_or_ref envelope of
            Inl ts \<Rightarrow>
              if ts_id (te_timestamp ts) \<noteq> []
                 \<and> map_of (timestamps s3) (ts_id (te_timestamp ts)) = None
              then s3\<lparr>timestamps := AList.update (ts_id (te_timestamp ts)) ts (timestamps s3)\<rparr>
              else s3
          | Inr r \<Rightarrow> s3))"

definition read_definitions :: "bool \<Rightarrow> element \<Rightarrow> unit reader" where
  "read_definitions assume_local_refs root_element =
     bnd (modify (\<lambda>s. Definitions\<lparr>heap := heap s, warnings := warnings s\<rparr>))
       (\<lambda>_. bnd (for_each (findall_children root_element ''definitions'') read_definitions_items)
       (\<lambda>_. bnd (for_each (findall_children root_element ''definitions'') read_definitions_contexts)
       (\<lambda>_. bnd (read_toplevel_contexts root_element)
       (\<lambda>_. bnd (modify (\<lambda>s. fold register_nested (map snd (contexts s)) s))
       (\<lambda>_. for_each (findall_children root_element ''definitions'')
               (\<lambda>element. bnd (read_traces assume_local_refs element None) (\<lambda>_. ret ())))))))"

subsection \<open>references.py: the parents of the brushes\<close>

text \<open>
  The sets \<^verbatim>\<open>backlog\<close> and \<^verbatim>\<open>resolved\<close> are lists without repetition; the order in
  which Python goes through a set has no part in the result. Lines 46 to 50:
\<close>

definition is_terminal :: "brush_envelope \<Rightarrow> bool" where
  "is_terminal brush = (be_parent_ref brush = [] \<or> be_parent_ref brush = ''#DefaultBrush'')"

definition seed_ids :: "(string \<times> brush_envelope) list \<Rightarrow> string list \<times> string list" where
  "seed_ids brs =
     (remdups (map (\<lambda>b. brush_id (be_brush b)) (filter (\<lambda>b. \<not> is_terminal b) (map snd brs))),
      remdups (map (\<lambda>b. brush_id (be_brush b)) (filter is_terminal (map snd brs))))"

definition set_parent :: "brush \<Rightarrow> brush_envelope \<Rightarrow> brush_envelope" where
  "set_parent p brush =
     brush\<lparr>be_brush := Brush (brush_id (be_brush brush)) (Some p)
                          (brush_properties (be_brush brush))
                          (brush_annotations (be_brush brush))\<rparr>"

text \<open>
  Lines 54 to 62: one pass of \<^verbatim>\<open>for id in backlog\<close>. The result holds the brushes with
  the parents set in this pass and \<^verbatim>\<open>stage_ids\<close>. A key that is not in the dictionary
  raises \<^verbatim>\<open>KeyError\<close>.
\<close>

fun resolve_stage ::
  "(string \<times> brush_envelope) list \<Rightarrow> string list \<Rightarrow> string list
     \<Rightarrow> py_error + (string \<times> brush_envelope) list \<times> string list" where
  "resolve_stage brs resolved [] = Inr (brs, [])"
| "resolve_stage brs resolved (i # ids) =
     (case map_of brs i of
        None \<Rightarrow> Inl KeyError
      | Some brush \<Rightarrow>
          if to_local_id (be_parent_ref brush) \<in> set resolved then
            (case map_of brs (to_local_id (be_parent_ref brush)) of
               None \<Rightarrow> Inl KeyError
             | Some p \<Rightarrow>
                 (case resolve_stage (AList.update i (set_parent (be_brush p) brush) brs)
                         resolved ids of
                    Inl e \<Rightarrow> Inl e
                  | Inr (brs', stage_ids) \<Rightarrow> Inr (brs', i # stage_ids)))
          else resolve_stage brs resolved ids)"

lemma resolve_stage_ids: "resolve_stage brs resolved ids = Inr (brs', st) \<Longrightarrow> set st \<subseteq> set ids"
proof (induction ids arbitrary: brs brs' st)
  case Nil
  then show ?case by simp
next
  case (Cons i ids)
  from Cons.prems show ?case
    by (auto split: option.splits if_splits sum.splits dest!: Cons.IH)
qed

text \<open>Lines 52 to 76: the \<^verbatim>\<open>while len(backlog) > 0\<close> loop.\<close>

function resolve_loop ::
  "(string \<times> brush_envelope) list \<Rightarrow> string list \<Rightarrow> string list
     \<Rightarrow> py_error + (string \<times> brush_envelope) list \<times> string list" where
  "resolve_loop brs backlog resolved =
     (if backlog = [] then Inr (brs, backlog)
      else (case resolve_stage brs resolved backlog of
              Inl e \<Rightarrow> Inl e
            | Inr (brs', stage_ids) \<Rightarrow>
                if stage_ids = [] then Inr (brs', backlog)
                else resolve_loop brs' (filter (\<lambda>i. i \<notin> set stage_ids) backlog)
                       (resolved @ stage_ids)))"
  by pat_completeness auto
termination
proof (relation "measure (\<lambda>(brs, backlog, resolved). length backlog)", simp, simp)
  fix brs :: "(string \<times> brush_envelope) list" and backlog resolved :: "string list"
    and brs' and stage_ids :: "string list" and x
  assume r: "resolve_stage brs resolved backlog = Inr x" and x: "(brs', stage_ids) = x"
    and ne: "stage_ids \<noteq> []"
  from r x have "set stage_ids \<subseteq> set backlog"
    using resolve_stage_ids [of brs resolved backlog brs' stage_ids] by simp
  with ne obtain i where "i \<in> set backlog" "i \<in> set stage_ids"
    by (cases stage_ids) auto
  then show "length (filter (\<lambda>i. i \<notin> set stage_ids) backlog) < length backlog"
    by (metis (mono_tags, lifting) length_filter_less)
qed

definition resolve_brush_parent_references ::
  "(string \<times> brush_envelope) list \<Rightarrow> py_error + (string \<times> brush_envelope) list \<times> string list" where
  "resolve_brush_parent_references brs =
     (case seed_ids brs of (backlog, resolved) \<Rightarrow> resolve_loop brs backlog resolved)"

text \<open>
  \<^verbatim>\<open>resolve_references\<close>, lines 7 to 15: the brushes. The message the function prints
  goes to the log. The steps for the timestamps and the contexts that follow write
  neither a brush of the definitions nor the table of the brushes.
\<close>

definition resolve_references :: "unit reader" where
  "resolve_references =
     (\<lambda>s. case resolve_brush_parent_references (brushes s) of
             Inl e \<Rightarrow> (Inl e, s)
           | Inr (brs, ignored_ids) \<Rightarrow>
               if ignored_ids \<noteq> [] then
                 (Inr (), s\<lparr>brushes := fold AList.delete ignored_ids brs,
                            warnings := warnings s @ [BrushesIgnored ignored_ids]\<rparr>)
               else (Inr (), s\<lparr>brushes := brs\<rparr>))"


section \<open>Properties\<close>

subsection \<open>Notions of the statements\<close>

text \<open>
  The parent chain of a context, the context first, and the trace format the
  specification selects for a trace: the trace's own context or else the ambient one;
  the first trace format along the chain; failing that the trace format of the first
  ink source along the chain; failing that the default.
\<close>

fun chain :: "context \<Rightarrow> context list" where
  "chain (Context i parent src tf br ts) =
     Context i parent src tf br ts # (case parent of None \<Rightarrow> [] | Some p \<Rightarrow> chain p)"

definition effective_trace_format :: "trace \<Rightarrow> context option \<Rightarrow> trace_format" where
  "effective_trace_format trace ambient =
     (case (case tr_context trace of Some c \<Rightarrow> Some c | None \<Rightarrow> ambient) of
        None \<Rightarrow> get_default_trace_format
      | Some chosen \<Rightarrow>
          (case List.map_filter ctx_trace_format (chain chosen) of
             tf # _ \<Rightarrow> tf
           | [] \<Rightarrow>
               (case List.map_filter ctx_ink_source (chain chosen) of
                  source # _ \<Rightarrow> src_trace_format source
                | [] \<Rightarrow> get_default_trace_format)))"

text \<open>
  Rounding to the nearest integer with exact halves away from zero, as the
  specification words it.
\<close>

definition round_half_away :: "rat \<Rightarrow> int" where
  "round_half_away x = (if 0 \<le> x then \<lfloor>x + 1 / 2\<rfloor> else - \<lfloor>- x + 1 / 2\<rfloor>)"

text \<open>
  The number that a Python number stands for, where it is one; and the rationals that
  are binary64 numbers, which rounding leaves as they are.
\<close>

definition number_value :: "number \<Rightarrow> rat option" where
  "number_value a =
     (case a of
        PyInt n \<Rightarrow> Some (of_int n)
      | PyFloat x \<Rightarrow>
          (case x of
             Finite q \<Rightarrow> Some q
           | MinusZero \<Rightarrow> Some 0
           | _ \<Rightarrow> None))"

definition is_binary64 :: "rat \<Rightarrow> bool" where
  "is_binary64 q = (round_double q = Finite q)"

text \<open>
  A regular channel that carries a last difference holds a value: the carry is set
  only by a first difference, which needs a previous value.
\<close>

definition carry_ok :: "regular_channel \<Rightarrow> bool" where
  "carry_ok channel = (rc_last_difference channel = PyFloat NaN \<or> rc_values channel \<noteq> [])"

text \<open>
  The value that a number gives under a difference order, before it is rounded, and the
  carry it leaves, as the specification words them; the sums are those of Python.
\<close>

definition decoded_value ::
  "regular_channel \<Rightarrow> difference_order \<Rightarrow> number \<Rightarrow> py_error + number" where
  "decoded_value channel order num =
     (case order of
        Explicit \<Rightarrow> Inr num
      | Difference \<Rightarrow> py_add (last (rc_values channel)) num
      | SecondDifference \<Rightarrow>
          (case py_add (last (rc_values channel)) (rc_last_difference channel) of
             Inl e \<Rightarrow> Inl e
           | Inr s \<Rightarrow> py_add s num))"

definition next_carry ::
  "regular_channel \<Rightarrow> difference_order \<Rightarrow> number \<Rightarrow> py_error + number" where
  "next_carry channel order num =
     (case order of
        Explicit \<Rightarrow> Inr (PyFloat NaN)
      | Difference \<Rightarrow> Inr num
      | SecondDifference \<Rightarrow> py_add (rc_last_difference channel) num)"










text \<open>What a step of a reader leaves as it was.\<close>

definition same_tables :: "rstate \<Rightarrow> rstate \<Rightarrow> bool" where
  "same_tables s s' =
     (contexts s' = contexts s \<and> brushes s' = brushes s \<and> traces s' = traces s
      \<and> length (heap s') = length (heap s) \<and> length (warnings s) \<le> length (warnings s'))"

text \<open>
  The table of the brushes as \<^verbatim>\<open>read_definitions\<close> builds it: each brush under its own
  identifier. A brush is grounded when its parent reference is empty or
  \<^verbatim>\<open>#DefaultBrush\<close>, or names a grounded brush of the table: the chain of its references
  ends after finitely many steps. \<open>parent_rel\<close> is the relation from a brush to the brush
  its reference names, \<open>parent_cycle C\<close> says that every brush of \<open>C\<close> refers to a brush
  of \<open>C\<close>, and \<open>settled\<close> that the parent of a brush is the brush its reference names.
  The other notions serve the proof: the references of a table, the identifiers a pass
  resolves, the table after a pass, and the invariant of the loop.
\<close>

definition wf_brushes :: "(string \<times> brush_envelope) list \<Rightarrow> bool" where
  "wf_brushes brs =
     (distinct (map fst brs) \<and> (\<forall>(k, e)\<in>set brs. brush_id (be_brush e) = k))"

definition parent_id :: "brush_envelope \<Rightarrow> string" where
  "parent_id e = to_local_id (be_parent_ref e)"

inductive grounded :: "(string \<times> brush_envelope) list \<Rightarrow> string \<Rightarrow> bool"
  for brs :: "(string \<times> brush_envelope) list" where
  terminal: "map_of brs i = Some e \<Longrightarrow> is_terminal e \<Longrightarrow> grounded brs i"
| parent: "map_of brs i = Some e \<Longrightarrow> grounded brs (parent_id e) \<Longrightarrow> grounded brs i"

code_pred grounded .

definition parent_rel :: "(string \<times> brush_envelope) list \<Rightarrow> (string \<times> string) set" where
  "parent_rel brs = {(i, j). \<exists>e. map_of brs i = Some e \<and> \<not> is_terminal e \<and> j = parent_id e}"

definition parent_cycle :: "string set \<Rightarrow> (string \<times> brush_envelope) list \<Rightarrow> bool" where
  "parent_cycle C brs =
     (\<forall>i\<in>C. case map_of brs i of
               None \<Rightarrow> False
             | Some e \<Rightarrow> \<not> is_terminal e \<and> parent_id e \<in> C)"

definition refs :: "(string \<times> brush_envelope) list \<Rightarrow> (string \<times> string) list" where
  "refs brs = map (\<lambda>(k, e). (k, be_parent_ref e)) brs"

definition same_refs ::
  "(string \<times> brush_envelope) list \<Rightarrow> (string \<times> brush_envelope) list \<Rightarrow> bool" where
  "same_refs brs cur = (refs cur = refs brs)"

definition ready :: "(string \<times> brush_envelope) list \<Rightarrow> string list \<Rightarrow> string \<Rightarrow> bool" where
  "ready brs resolved i =
     (case map_of brs i of None \<Rightarrow> False | Some e \<Rightarrow> parent_id e \<in> set resolved)"

definition linked ::
  "(string \<times> brush_envelope) list \<Rightarrow> string list \<Rightarrow> string set \<Rightarrow> string
     \<Rightarrow> brush_envelope option" where
  "linked cur resolved ids i =
     (case map_of cur i of
        None \<Rightarrow> None
      | Some e \<Rightarrow>
          if i \<in> ids \<and> parent_id e \<in> set resolved
          then (case map_of cur (parent_id e) of
                  None \<Rightarrow> None
                | Some p \<Rightarrow> Some (set_parent (be_brush p) e))
          else Some e)"

definition settled ::
  "(string \<times> brush_envelope) list \<Rightarrow> (string \<times> brush_envelope) list \<Rightarrow> string set
     \<Rightarrow> string \<Rightarrow> bool" where
  "settled brs cur R i =
     (case map_of brs i of
        None \<Rightarrow> False
      | Some e \<Rightarrow>
          if is_terminal e then map_of cur i = Some e
          else parent_id e \<in> R
               \<and> (case map_of cur (parent_id e) of
                      None \<Rightarrow> False
                    | Some p \<Rightarrow> map_of cur i = Some (set_parent (be_brush p) e)))"

definition inv ::
  "(string \<times> brush_envelope) list \<Rightarrow> (string \<times> brush_envelope) list
     \<Rightarrow> string list \<Rightarrow> string list \<Rightarrow> bool" where
  "inv brs cur backlog resolved =
     (same_refs brs cur \<and> distinct backlog \<and> set backlog \<inter> set resolved = {}
      \<and> set backlog \<union> set resolved = fst ` set brs
      \<and> (\<forall>i\<in>set resolved. grounded brs i \<and> settled brs cur (set resolved) i)
      \<and> (\<forall>i e. map_of brs i = Some e \<and> is_terminal e \<longrightarrow> i \<in> set resolved)
      \<and> (\<forall>i\<in>set backlog. map_of cur i = map_of brs i))"

text \<open>
  A reader keeps the table of the brushes when it leaves it as it is, and keeps it well
  formed when it takes a table in which each brush is under its own identifier to one
  of the same kind.
\<close>

definition keeps_brushes :: "'a reader \<Rightarrow> bool" where
  "keeps_brushes m = (\<forall>s. brushes (snd (m s)) = brushes s)"

definition keeps_wf :: "'a reader \<Rightarrow> bool" where
  "keeps_wf m = (\<forall>s. wf_brushes (brushes s) \<longrightarrow> wf_brushes (brushes (snd (m s))))"

definition brush_env :: "string \<Rightarrow> string \<Rightarrow> string \<times> brush_envelope" where
  "brush_env i r = (i, \<lparr>be_brush = Brush i None [] [], be_parent_ref = r\<rparr>)"

subsection \<open>The effective trace format\<close>

lemma walk_trace_format_chain:
  "walk_trace_format c =
     (case List.map_filter ctx_trace_format (chain c) of [] \<Rightarrow> None | tf # _ \<Rightarrow> Some tf)"
  by (induction c rule: walk_trace_format.induct)
     (auto simp: List.map_filter_simps split: option.splits list.splits)

lemma walk_ink_source_chain:
  "walk_ink_source c =
     (case List.map_filter ctx_ink_source (chain c) of
        [] \<Rightarrow> None
      | source # _ \<Rightarrow> Some (src_trace_format source))"
  by (induction c rule: walk_ink_source.induct)
     (auto simp: List.map_filter_simps split: option.splits list.splits)

text \<open>
  Claim C2. For every trace and every optional ambient context, \<^verbatim>\<open>get_trace_format\<close>
  returns the trace format chosen as follows: with the trace's own context if set, else
  the ambient context, the first trace format found along the parent chain of that
  context; if there is none, the trace format of the first ink source along the same
  chain; and the default trace format if there is no context or neither is found. The
  default trace format is \<^verbatim>\<open>DefaultTraceFormat\<close>, with the regular channels \<^verbatim>\<open>X\<close> then \<^verbatim>\<open>Y\<close>,
  both of type decimal, and no intermittent channel.
\<close>

theorem get_trace_format_effective:
  "get_trace_format trace ambient = effective_trace_format trace ambient
   \<and> tf_id get_default_trace_format = ''DefaultTraceFormat''
   \<and> map ch_name (regular_channels get_default_trace_format) = [''X'', ''Y'']
   \<and> map ch_type (regular_channels get_default_trace_format) = [Decimal, Decimal]
   \<and> intermittent_channels get_default_trace_format = []"
  by (simp add: get_trace_format_def effective_trace_format_def py_or_def
      walk_trace_format_chain walk_ink_source_chain get_default_trace_format_def
      TraceFormat_def Channel_def split: option.splits list.splits)

subsection \<open>The tokenizer\<close>

text \<open>
  Claim C6. The grammar of the claim gives an exponent one or more digits; the regular
  expression of the source gives it exactly one (\<^verbatim>\<open>[eE][+-]?\d\<close>). The point \<^verbatim>\<open>1e10\<close> is
  one numeric token of the grammar, and the tokenizer splits it into \<^verbatim>\<open>1e1\<close> and \<^verbatim>\<open>0\<close>;
  an exponent of one digit is read whole.
\<close>

theorem findall_exponent_one_digit:
  "findall ''1e10'' = [''1e1'', ''0''] \<and> findall ''1e5'' = [''1e5'']"
  by code_simp

subsection \<open>Channel properties of an ink source\<close>

text \<open>
  Claim C8. An ink source with the channel \<^verbatim>\<open>X\<close> and a \<^verbatim>\<open>channelProperties\<close> wrapper
  that holds \<^verbatim>\<open><channelProperty channel="X" name="resolution" value="5"/>\<close>: the claim
  attaches the property to \<^verbatim>\<open>X\<close>; \<^verbatim>\<open>read_ink_source\<close> returns the ink source with no
  property on \<^verbatim>\<open>X\<close>, since it reads the children of the first \<^verbatim>\<open>channelProperty\<close> and not
  the \<^verbatim>\<open>channelProperty\<close> elements. With an empty wrapper it raises \<^verbatim>\<open>TypeError\<close>.
\<close>

theorem read_ink_source_skips_channel_property:
  "(case fst (read_ink_source
       (Element (inkml ''inkSource'') [(ID, ''src'')] None None
          [Element (inkml ''traceFormat'') [] None None
             [Element (inkml ''channel'') [(''name'', ''X'')] None None []],
           Element (inkml ''channelProperties'') [] None None
             [Element (inkml ''channelProperty'')
                [(''channel'', ''X''), (''name'', ''resolution''), (''value'', ''5'')]
                None None []]])
       Definitions) of
      Inr (Some source) \<Rightarrow>
        map (\<lambda>c. (ch_name c, ch_properties c)) (regular_channels (src_trace_format source))
          = [(''X'', [])]
    | _ \<Rightarrow> False)
   \<and> fst (read_ink_source
       (Element (inkml ''inkSource'') [(ID, ''src'')] None None
          [Element (inkml ''traceFormat'') [] None None
             [Element (inkml ''channel'') [(''name'', ''X'')] None None []],
           Element (inkml ''channelProperties'') [] None None []])
       Definitions) = Inl TypeError"
  by code_simp

subsection \<open>Contexts at the top level\<close>

text \<open>
  Claim C9. A root with the two direct children \<^verbatim>\<open><context xml:id="ctx1"/>\<close> and
  \<^verbatim>\<open><context/>\<close>: the claim registers \<^verbatim>\<open>ctx1\<close> and ignores the context without an
  identifier; \<^verbatim>\<open>read_definitions\<close> leaves \<^verbatim>\<open>ctx1\<close> out and registers the other under the
  empty key. The same context inside \<^verbatim>\<open>definitions\<close> is registered under \<^verbatim>\<open>ctx1\<close>.
\<close>

theorem read_definitions_toplevel_context_with_id:
  "map fst (contexts (snd (read_definitions False
       (Element INK [] None None
          [Element (inkml ''context'') [(ID, ''ctx1'')] None None [],
           Element (inkml ''context'') [] None None []])
       Definitions))) = [[]]
   \<and> map fst (contexts (snd (read_definitions False
       (Element INK [] None None
          [Element (inkml ''definitions'') [] None None
             [Element (inkml ''context'') [(ID, ''ctx1'')] None None [],
              Element (inkml ''context'') [] None None []]])
       Definitions))) = [''ctx1'']"
  by code_simp


subsection \<open>Rounding to binary64\<close>

text \<open>
  The exponent that \<^const>\<open>floor_log2\<close> computes from the bit lengths of numerator and
  denominator is the binary exponent of its argument, \<^const>\<open>round_half_even\<close> yields a
  nearest integer and the even one at a tie, and a finite result of
  \<^const>\<open>round_magnitude\<close> is a multiple of the unit in the last place at most half a unit
  away. Rounding is idempotent, so the numbers satisfying \<^const>\<open>is_binary64\<close> are the
  finite values of the floats.
\<close>

lemma pow2_pos: "0 < pow2 e"
  by (simp add: pow2_def)

lemma pow2_powi: "pow2 e = power_int 2 e"
  by (simp add: pow2_def power_int_def inverse_eq_divide power_one_over)

lemma pow2_add: "pow2 (m + n) = pow2 m * pow2 n"
  by (simp add: pow2_powi power_int_add)

lemma pow2_of_nat: "pow2 (int k) = 2 ^ k"
  by (simp add: pow2_def)

lemma pow2_mono: "m \<le> n \<Longrightarrow> pow2 m \<le> pow2 n"
proof -
  assume "m \<le> n"
  then obtain k where "n = m + int k" by (metis zle_iff_zadd)
  then have "pow2 n = pow2 m * 2 ^ k" by (simp add: pow2_add pow2_of_nat)
  moreover have "(1::rat) \<le> 2 ^ k" by simp
  ultimately show ?thesis using pow2_pos [of m] by (simp add: mult_le_cancel_left1)
qed

lemma bit_length_nonneg: "0 \<le> bit_length n"
  by (induction n rule: bit_length.induct) (subst bit_length.simps, simp)

lemma bit_length_pos: "0 < n \<Longrightarrow> 1 \<le> bit_length n"
  using bit_length_nonneg [of "n div 2"] by (subst bit_length.simps) simp

lemma bit_length_one: "bit_length 1 = 1"
proof -
  have "bit_length 0 = 0" by (subst bit_length.simps) simp
  then show ?thesis by (subst bit_length.simps) simp
qed

lemma bit_length_bounds:
  "0 < n \<Longrightarrow> 2 ^ nat (bit_length n - 1) \<le> n \<and> n < 2 ^ nat (bit_length n)"
proof (induction n rule: bit_length.induct)
  case (1 n)
  show ?case
  proof (cases "n = 1")
    case True
    then show ?thesis by (simp add: bit_length_one)
  next
    case False
    define m where "m = n div 2"
    from False 1(2) have h: "0 < m" by (simp add: m_def)
    from 1(2) have "\<not> n \<le> 0" by simp
    from 1(1) [OF this] h have ih: "2 ^ nat (bit_length m - 1) \<le> m" "m < 2 ^ nat (bit_length m)"
      by (simp_all add: m_def)
    have b: "bit_length n = 1 + bit_length m"
      using 1(2) by (subst bit_length.simps) (simp add: m_def)
    from h have p: "1 \<le> bit_length m" by (rule bit_length_pos)
    define k where "k = nat (bit_length m - 1)"
    from p have e1: "nat (bit_length n - 1) = Suc k" and e2: "nat (bit_length n) = Suc (Suc k)"
      and e3: "nat (bit_length m) = Suc k"
      by (simp_all add: b k_def)
    have d: "2 * m \<le> n" "n < 2 * m + 2" by (simp_all add: m_def)
    from ih have i1: "(2::int) ^ k \<le> m" and i2: "m < 2 * 2 ^ k" by (simp_all add: k_def [symmetric] e3)
    from i1 d(1) have "(2::int) * 2 ^ k \<le> n" by linarith
    moreover from i2 d(2) have "n < 2 * (2 * 2 ^ k)" by linarith
    ultimately show ?thesis unfolding e1 e2 by simp
  qed
qed

lemma floor_log2_bounds:
  assumes "0 < a"
  shows "pow2 (floor_log2 a) \<le> a \<and> a < pow2 (floor_log2 a + 1)"
proof -
  obtain p q where pq: "quotient_of a = (p, q)" by (cases "quotient_of a")
  then have q: "0 < q" and a: "a = of_int p / of_int q"
    using quotient_of_denom_pos [OF pq] quotient_of_div [OF pq] by simp_all
  with assms have p: "0 < p" by (simp add: zero_less_divide_iff)
  define bp where "bp = bit_length p"
  define bq where "bq = bit_length q"
  from bit_length_bounds [OF p] have pb: "(2::int) ^ nat (bp - 1) \<le> p" "p < 2 ^ nat bp"
    by (simp_all add: bp_def)
  from bit_length_bounds [OF q] have qb: "(2::int) ^ nat (bq - 1) \<le> q" "q < 2 ^ nat bq"
    by (simp_all add: bq_def)
  have bp1: "1 \<le> bp" using p by (simp add: bp_def bit_length_pos)
  have bq1: "1 \<le> bq" using q by (simp add: bq_def bit_length_pos)
  have P: "pow2 (bp - 1) \<le> of_int p" "of_int p < pow2 bp"
  proof -
    have "pow2 (bp - 1) = of_int (2 ^ nat (bp - 1))" using bp1 by (simp add: pow2_def)
    also have "\<dots> \<le> of_int p" using pb(1) by (simp only: of_int_le_iff)
    finally show "pow2 (bp - 1) \<le> of_int p" .
    have "(of_int p :: rat) < of_int (2 ^ nat bp)" using pb(2) by (simp only: of_int_less_iff)
    also have "\<dots> = pow2 bp" using bp1 by (simp add: pow2_def)
    finally show "of_int p < pow2 bp" .
  qed
  have Q: "pow2 (bq - 1) \<le> of_int q" "of_int q < pow2 bq"
  proof -
    have "pow2 (bq - 1) = of_int (2 ^ nat (bq - 1))" using bq1 by (simp add: pow2_def)
    also have "\<dots> \<le> of_int q" using qb(1) by (simp only: of_int_le_iff)
    finally show "pow2 (bq - 1) \<le> of_int q" .
    have "(of_int q :: rat) < of_int (2 ^ nat bq)" using qb(2) by (simp only: of_int_less_iff)
    also have "\<dots> = pow2 bq" using bq1 by (simp add: pow2_def)
    finally show "of_int q < pow2 bq" .
  qed
  define c where "c = bp - bq"
  have qpos: "(0::rat) < of_int q" using q by simp
  have lo: "pow2 (c - 1) < a"
  proof -
    have "pow2 (c - 1) * of_int q < pow2 (c - 1) * pow2 bq"
      using Q(2) pow2_pos [of "c - 1"] by (simp add: mult_less_cancel_left_pos)
    also have "\<dots> = pow2 (bp - 1)" by (simp add: pow2_add [symmetric] c_def)
    also have "\<dots> \<le> of_int p" by (rule P(1))
    finally show ?thesis using qpos by (simp add: a pos_less_divide_eq)
  qed
  have hi: "a < pow2 (c + 1)"
  proof -
    have "of_int p < pow2 bp" by (rule P(2))
    also have "\<dots> = pow2 (c + 1) * pow2 (bq - 1)" by (simp add: pow2_add [symmetric] c_def)
    also have "\<dots> \<le> pow2 (c + 1) * of_int q"
      using Q(1) pow2_pos [of "c + 1"] by (simp add: mult_le_cancel_left_pos)
    finally show ?thesis using qpos by (simp add: a pos_divide_less_eq)
  qed
  have f: "floor_log2 a = (if pow2 c \<le> a then c else c - 1)"
    by (simp add: floor_log2_def pq Let_def c_def bp_def bq_def)
  show ?thesis
  proof (cases "pow2 c \<le> a")
    case True
    with f hi show ?thesis by simp
  next
    case False
    with f lo show ?thesis by simp
  qed
qed


lemma pow2_sum: "a + b = c \<Longrightarrow> pow2 a * pow2 b = pow2 c"
proof -
  assume "a + b = c"
  then have "pow2 c = pow2 (a + b)" by simp
  then show ?thesis by (simp only: pow2_add)
qed

lemma pow2_strict_mono: "m < n \<Longrightarrow> pow2 m < pow2 n"
proof -
  assume "m < n"
  then have "m + 1 \<le> n" by simp
  from pow2_mono [OF this] have "pow2 m * pow2 1 \<le> pow2 n" by (simp only: pow2_add)
  moreover have "pow2 1 = 2" by (simp add: pow2_def)
  ultimately have "pow2 m * 2 \<le> pow2 n" by simp
  with pow2_pos [of m] show ?thesis by linarith
qed

lemma floor_log2_unique:
  assumes "pow2 k \<le> a" "a < pow2 (k + 1)"
  shows "floor_log2 a = k"
proof -
  from assms(1) pow2_pos [of k] have "0 < a" by linarith
  from floor_log2_bounds [OF this]
  have b: "pow2 (floor_log2 a) \<le> a" "a < pow2 (floor_log2 a + 1)" by simp_all
  have "\<not> floor_log2 a + 1 \<le> k"
  proof
    assume "floor_log2 a + 1 \<le> k"
    from pow2_mono [OF this] b(2) assms(1) show False by linarith
  qed
  moreover have "\<not> k + 1 \<le> floor_log2 a"
  proof
    assume "k + 1 \<le> floor_log2 a"
    from pow2_mono [OF this] b(1) assms(2) show False by linarith
  qed
  ultimately show ?thesis by linarith
qed

lemma round_half_even_cases:
  fixes x :: rat
  defines "d \<equiv> x - of_int \<lfloor>x\<rfloor>"
  shows "0 \<le> d \<and> d < 1
    \<and> round_half_even x = (if d < 1 / 2 then \<lfloor>x\<rfloor> else if 1 / 2 < d then \<lfloor>x\<rfloor> + 1
                            else if even \<lfloor>x\<rfloor> then \<lfloor>x\<rfloor> else \<lfloor>x\<rfloor> + 1)"
proof -
  have "of_int \<lfloor>x\<rfloor> \<le> x" "x < of_int \<lfloor>x\<rfloor> + 1" by linarith+
  then show ?thesis by (simp add: d_def round_half_even_def Let_def)
qed

lemma round_half_even_nearest: "\<bar>x - of_int (round_half_even x)\<bar> \<le> 1 / 2"
  using round_half_even_cases [of x] by (auto split: if_splits)

lemma round_half_even_tie:
  "\<bar>x - of_int (round_half_even x)\<bar> = 1 / 2 \<Longrightarrow> even (round_half_even x)"
  using round_half_even_cases [of x] by (auto split: if_splits)

lemma round_half_even_unique:
  assumes a: "\<bar>x - of_int n\<bar> \<le> 1 / 2" and e: "\<bar>x - of_int n\<bar> = 1 / 2 \<longrightarrow> even n"
  shows "n = round_half_even x"
proof -
  define f where "f = \<lfloor>x\<rfloor>"
  define d where "d = x - of_int f"
  have c: "0 \<le> d" "d < 1"
    and r: "round_half_even x = (if d < 1 / 2 then f else if 1 / 2 < d then f + 1
                                 else if even f then f else f + 1)"
    using round_half_even_cases [of x] by (simp_all add: f_def d_def)
  have x: "x = of_int f + d" by (simp add: d_def)
  from a have "of_int n \<le> x + 1 / 2" "x - 1 / 2 \<le> of_int n" by linarith+
  with c x have "(of_int n :: rat) < of_int (f + 2)" "(of_int (f - 1) :: rat) < of_int n" by auto
  then have "n < f + 2" "f - 1 < n" by (simp_all only: of_int_less_iff)
  then consider "n = f" | "n = f + 1" by linarith
  then show ?thesis
  proof cases
    case 1
    with a e x c have "d \<le> 1 / 2" "d = 1 / 2 \<longrightarrow> even f" by (auto simp: abs_if split: if_splits)
    with r 1 show ?thesis by auto
  next
    case 2
    with a e x c have "1 / 2 \<le> d" "d = 1 / 2 \<longrightarrow> odd f" by (auto simp: abs_le_iff abs_if split: if_splits)
    with r 2 show ?thesis by auto
  qed
qed

lemma round_half_even_of_int: "round_half_even (of_int n) = n"
  by (simp add: round_half_even_def)

lemma round_half_even_ge:
  assumes "of_int n \<le> x"
  shows "n \<le> round_half_even x"
proof -
  from round_half_even_nearest [of x] assms
  have "(of_int n :: rat) - 1 / 2 \<le> of_int (round_half_even x)" by linarith
  then have "(of_int n :: rat) < of_int (round_half_even x) + 1" by linarith
  then have "(of_int n :: rat) < of_int (round_half_even x + 1)" by simp
  then have "n < round_half_even x + 1" by (simp only: of_int_less_iff)
  then show ?thesis by simp
qed

lemma round_half_even_le:
  assumes "x \<le> of_int n"
  shows "round_half_even x \<le> n"
proof -
  from round_half_even_nearest [of x] assms
  have "(of_int (round_half_even x) :: rat) \<le> of_int n + 1 / 2" by linarith
  then have "(of_int (round_half_even x) :: rat) < of_int (n + 1)" by simp
  then have "round_half_even x < n + 1" by (simp only: of_int_less_iff)
  then show ?thesis by simp
qed

lemma round_magnitude_cases:
  "(\<exists>r. round_magnitude a = Finite r) \<or> round_magnitude a = PlusInf"
  by (simp add: round_magnitude_def Let_def)

lemma round_double_not_nan: "round_double q \<noteq> NaN"
  using round_magnitude_cases [of q] round_magnitude_cases [of "- q"]
  by (auto simp: round_double_def float_neg_def split: if_splits)

lemma round_magnitude_eq:
  assumes "a \<noteq> 0" "max (floor_log2 a) (- 1022) = e"
    and "of_int (round_half_even (a / pow2 (e - 52))) * pow2 (e - 52) = r"
    and "e < 1023 \<or> \<not> pow2 1024 \<le> r"
  shows "round_magnitude a = Finite r"
  unfolding round_magnitude_def Let_def assms(2) assms(3) using assms(1,4) by auto

lemma round_magnitude_exact:
  assumes "0 < m" "m \<le> 2 ^ 53" "- 1022 \<le> e"
    and "e = - 1022 \<or> 2 ^ 52 \<le> m"
    and "e < 1023 \<or> of_int m * pow2 (e - 52) < pow2 1024"
  shows "round_magnitude (of_int m * pow2 (e - 52)) = Finite (of_int m * pow2 (e - 52))"
proof -
  define u where "u = pow2 (e - 52)"
  define r where "r = of_int m * u"
  have u: "0 < u" by (simp add: u_def pow2_pos)
  have r: "0 < r" using assms(1) u by (simp add: r_def)
  have p52: "pow2 52 = 2 ^ 52" "pow2 53 = 2 ^ 53" by (simp_all add: pow2_def)
  have ue: "u * pow2 52 = pow2 e" "u * pow2 53 = pow2 (e + 1)"
    unfolding u_def by (rule pow2_sum, simp)+
  have up: "r \<le> pow2 (e + 1)"
  proof -
    from assms(2) have "(of_int m :: rat) \<le> of_int (2 ^ 53)" by (simp only: of_int_le_iff)
    then have "(of_int m :: rat) \<le> pow2 53" by (simp add: p52)
    with u have "of_int m * u \<le> pow2 53 * u" by (simp add: mult_le_cancel_right)
    then show ?thesis by (simp add: r_def ue mult.commute)
  qed
  show ?thesis
  proof (cases "m = 2 ^ 53")
    case True
    then have re: "r = pow2 (e + 1)" by (simp add: r_def ue [symmetric] p52 mult.commute)
    have "pow2 (e + 1) < pow2 (e + 1 + 1)" by (rule pow2_strict_mono) simp
    with re have f: "floor_log2 r = e + 1" by (intro floor_log2_unique) simp_all
    have e': "max (floor_log2 r) (- 1022) = e + 1" using f assms(3) by simp
    have q: "r / pow2 (e + 1 - 52) = of_int (2 ^ 52)"
    proof -
      have "pow2 (e + 1 - 52) * pow2 52 = pow2 (e + 1)" by (rule pow2_sum) simp
      then have "pow2 (e + 1) = pow2 (e + 1 - 52) * pow2 52" by simp
      then show ?thesis using pow2_pos [of "e + 1 - 52"] by (simp add: re p52)
    qed
    have same: "of_int (round_half_even (r / pow2 (e + 1 - 52))) * pow2 (e + 1 - 52) = r"
    proof -
      have "of_int (round_half_even (r / pow2 (e + 1 - 52))) * pow2 (e + 1 - 52)
          = of_int (2 ^ 52) * pow2 (e + 1 - 52)"
        unfolding q round_half_even_of_int ..
      also have "\<dots> = pow2 52 * pow2 (e + 1 - 52)" by (simp add: p52)
      also have "\<dots> = pow2 (e + 1)" by (rule pow2_sum) simp
      finally show ?thesis by (simp add: re)
    qed
    have nov: "e + 1 < 1023 \<or> \<not> pow2 1024 \<le> r"
    proof (cases "e < 1023")
      case True
      then have "e + 1 \<le> 1023" by simp
      from pow2_mono [OF this] have "r \<le> pow2 1023" by (simp add: re)
      moreover have "pow2 1023 < pow2 1024" by (rule pow2_strict_mono) simp
      ultimately show ?thesis by simp
    next
      case False
      with assms(5) show ?thesis by (simp add: r_def u_def)
    qed
    from r have "r \<noteq> 0" by simp
    then have "round_magnitude r = Finite r"
      by (rule round_magnitude_eq [OF _ e' same nov])
    then show ?thesis by (simp add: r_def u_def)
  next
    case False
    with assms(2) have lt: "m < 2 ^ 53" by simp
    then have "(of_int m :: rat) < of_int (2 ^ 53)" by (simp only: of_int_less_iff)
    then have "(of_int m :: rat) < pow2 53" by (simp add: p52)
    with u have "of_int m * u < pow2 53 * u" by (simp add: mult_less_cancel_right)
    then have rlt: "r < pow2 (e + 1)" by (simp add: r_def ue mult.commute)
    have e': "max (floor_log2 r) (- 1022) = e"
    proof (cases "2 ^ 52 \<le> m")
      case True
      then have "(of_int (2 ^ 52) :: rat) \<le> of_int m" by (simp only: of_int_le_iff)
      then have "pow2 52 \<le> (of_int m :: rat)" by (simp add: p52)
      with u have "pow2 52 * u \<le> of_int m * u" by (simp add: mult_le_cancel_right)
      then have "pow2 e \<le> r" by (simp add: r_def ue mult.commute)
      with rlt have "floor_log2 r = e" by (intro floor_log2_unique)
      with assms(3) show ?thesis by simp
    next
      case False
      with assms(4) have e: "e = - 1022" by simp
      from floor_log2_bounds [OF r] have "pow2 (floor_log2 r) \<le> r" by simp
      with rlt have "pow2 (floor_log2 r) < pow2 (e + 1)" by linarith
      then have "floor_log2 r < e + 1"
        using pow2_mono [of "e + 1" "floor_log2 r"] by (cases "floor_log2 r < e + 1") auto
      with e show ?thesis by simp
    qed
    have same: "of_int (round_half_even (r / pow2 (e - 52))) * pow2 (e - 52) = r"
    proof -
      have "r / pow2 (e - 52) = of_int m" using u by (simp add: r_def u_def)
      then show ?thesis by (simp add: round_half_even_of_int r_def u_def)
    qed
    from r have "r \<noteq> 0" by simp
    moreover from assms(5) have "e < 1023 \<or> \<not> pow2 1024 \<le> r" by (auto simp: r_def u_def)
    ultimately have "round_magnitude r = Finite r"
      by (rule round_magnitude_eq [OF _ e' same])
    then show ?thesis by (simp add: r_def u_def)
  qed
qed

lemma round_magnitude_idem:
  assumes "0 \<le> a" "round_magnitude a = Finite r"
  shows "round_magnitude r = Finite r"
proof (cases "a = 0")
  case True
  with assms(2) show ?thesis by (simp add: round_magnitude_def)
next
  case False
  with assms(1) have a: "0 < a" by simp
  define f where "f = floor_log2 a"
  define e where "e = max f (- 1022)"
  define u where "u = pow2 (e - 52)"
  define m where "m = round_half_even (a / u)"
  have u: "0 < u" by (simp add: u_def pow2_pos)
  from assms(2) False have r: "r = of_int m * u"
    and nov: "e < 1023 \<or> \<not> pow2 1024 \<le> of_int m * u"
    by (auto simp: round_magnitude_def Let_def f_def e_def u_def m_def split: if_splits)
  from floor_log2_bounds [OF a] have b: "pow2 f \<le> a" "a < pow2 (f + 1)" by (simp_all add: f_def)
  have p52: "pow2 52 = 2 ^ 52" "pow2 53 = 2 ^ 53" by (simp_all add: pow2_def)
  have ue: "u * pow2 52 = pow2 e" "u * pow2 53 = pow2 (e + 1)"
    unfolding u_def by (rule pow2_sum, simp)+
  have "0 \<le> a / u" using a u by simp
  then have "(of_int 0 :: rat) \<le> a / u" by simp
  from round_half_even_ge [OF this] have m0: "0 \<le> m" by (simp add: m_def)
  have fe: "f \<le> e" by (simp add: e_def)
  have "a < pow2 (e + 1)" using b(2) pow2_mono [of "f + 1" "e + 1"] fe by simp
  then have "a < u * pow2 53" by (simp add: ue)
  then have "a / u < pow2 53" using u by (simp add: pos_divide_less_eq mult.commute)
  then have "a / u \<le> of_int (2 ^ 53)" by (simp add: p52)
  from round_half_even_le [OF this] have m53: "m \<le> 2 ^ 53" by (simp add: m_def)
  have lo: "e = - 1022 \<or> 2 ^ 52 \<le> m"
  proof (cases "e = - 1022")
    case True
    then show ?thesis by simp
  next
    case False
    then have "e = f" by (simp add: e_def max_def split: if_splits)
    with b(1) have "u * pow2 52 \<le> a" by (simp add: ue)
    then have "pow2 52 \<le> a / u" using u by (simp add: pos_le_divide_eq mult.commute)
    then have "of_int (2 ^ 52) \<le> a / u" by (simp add: p52)
    from round_half_even_ge [OF this] show ?thesis by (simp add: m_def)
  qed
  show ?thesis
  proof (cases "m = 0")
    case True
    with r show ?thesis by (simp add: round_magnitude_def)
  next
    case False
    with m0 have "0 < m" by simp
    moreover have "- 1022 \<le> e" by (simp add: e_def)
    moreover from nov have "e < 1023 \<or> of_int m * pow2 (e - 52) < pow2 1024"
      by (auto simp: u_def)
    ultimately show ?thesis
      using round_magnitude_exact [of m e] m53 lo by (simp add: r u_def)
  qed
qed

lemma round_magnitude_nonneg:
  assumes "0 \<le> a" "round_magnitude a = Finite r"
  shows "0 \<le> r"
proof (cases "a = 0")
  case True
  with assms(2) show ?thesis by (simp add: round_magnitude_def)
next
  case False
  define u where "u = pow2 (max (floor_log2 a) (- 1022) - 52)"
  have u: "0 < u" by (simp add: u_def pow2_pos)
  from assms(2) False have r: "r = of_int (round_half_even (a / u)) * u"
    by (auto simp: round_magnitude_def Let_def u_def split: if_splits)
  from assms(1) u have "0 \<le> a / u" by (rule divide_nonneg_pos)
  then have "(of_int 0 :: rat) \<le> a / u" by simp
  from round_half_even_ge [OF this] have "0 \<le> round_half_even (a / u)" .
  with u show ?thesis by (simp add: r)
qed

lemma round_magnitude_nearest:
  assumes "a \<noteq> 0" "round_magnitude a = Finite r"
  defines "ulp \<equiv> pow2 (max (floor_log2 a) (- 1022) - 52)"
  shows "(\<exists>m. r = of_int m * ulp) \<and> \<bar>a - r\<bar> \<le> ulp / 2"
proof -
  define m where "m = round_half_even (a / ulp)"
  have u: "0 < ulp" by (simp add: ulp_def pow2_pos)
  from assms(1,2) have r: "r = of_int m * ulp"
    by (auto simp: round_magnitude_def Let_def ulp_def m_def split: if_splits)
  have "\<bar>a / ulp - of_int m\<bar> \<le> 1 / 2" unfolding m_def by (rule round_half_even_nearest)
  with u have "\<bar>a / ulp - of_int m\<bar> * ulp \<le> 1 / 2 * ulp" by (simp only: mult_le_cancel_right) simp
  moreover have "\<bar>a / ulp - of_int m\<bar> * ulp = \<bar>a - of_int m * ulp\<bar>"
  proof -
    have "\<bar>a / ulp - of_int m\<bar> * ulp = \<bar>a / ulp - of_int m\<bar> * \<bar>ulp\<bar>" using u by simp
    also have "\<dots> = \<bar>(a / ulp - of_int m) * ulp\<bar>" by (simp only: abs_mult)
    also have "(a / ulp - of_int m) * ulp = a - of_int m * ulp" using u by (simp add: algebra_simps)
    finally show ?thesis .
  qed
  ultimately show ?thesis using r by auto
qed

lemma round_double_idem:
  assumes "round_double a = Finite r"
  shows "round_double r = Finite r"
proof (cases "a < 0")
  case False
  then have a: "0 \<le> a" by simp
  with assms have m: "round_magnitude a = Finite r" by (simp add: round_double_def)
  from round_magnitude_nonneg [OF a m] have "0 \<le> r" .
  with round_magnitude_idem [OF a m] show ?thesis by (simp add: round_double_def)
next
  case True
  then have a: "0 \<le> - a" by simp
  from assms True have n: "float_neg (round_magnitude (- a)) = Finite r"
    by (simp add: round_double_def)
  with round_magnitude_cases [of "- a"]
  obtain s where s: "round_magnitude (- a) = Finite s" "s \<noteq> 0" "r = - s"
    by (auto simp: float_neg_def split: if_splits)
  from round_magnitude_nonneg [OF a s(1)] s(2) have "0 < s" by simp
  with round_magnitude_idem [OF a s(1)] s(2,3) show ?thesis
    by (simp add: round_double_def float_neg_def)
qed

lemma is_binary64_iff: "is_binary64 q \<longleftrightarrow> (\<exists>a. round_double a = Finite q)"
  unfolding is_binary64_def using round_double_idem by blast

subsection \<open>Rounding on integer channels\<close>

lemma py_round_value:
  assumes "py_round v = Inr w"
  shows "\<exists>q. number_value v = Some q \<and> w = PyInt (round_half_even q)"
  using assms
  by (auto simp: py_round_def number_value_def round_half_even_of_int round_half_even_def
      split: number.splits double.splits)

lemma process_regular_token_numeric:
  assumes "rc_type channel \<noteq> Boolean" "token \<noteq> ''*''"
    and "process_regular_token channel token j = Ok ch'"
  shows "\<exists>num tok. signed_number (strip (snd (split_marker token))) j True = Ok (num, tok)
           \<and> add_value channel
                (case fst (split_marker token) of
                   None \<Rightarrow> rc_difference_order channel
                 | Some d \<Rightarrow> d) num tok j = Ok ch'"
  using assms
  by (auto simp: process_regular_token_def split: if_splits prod.splits outcome.splits)

lemma add_value_Ok:
  assumes "add_value channel order num tok j = Ok ch'"
  shows "rc_difference_order ch' = order
    \<and> (\<exists>v w. decoded_value channel order num = Inr v
           \<and> round_if_integer (rc_type channel) v = Inr w
           \<and> rc_values ch' = rc_values channel @ [w])"
  using assms
  by (cases order)
     (auto simp: add_value_def decoded_value_def raising_def split: if_splits sum.splits)

text \<open>
  Claim C5, as stated, fails: Python's \<^verbatim>\<open>round\<close> sends an exact half to the even
  neighbour. On an integer channel the token \<^verbatim>\<open>2.5\<close> is read as the float 2.5 and appends
  the integer 2, and half away from zero is 3.
\<close>

theorem integer_rounding_counterexample:
  "process_regular_token (RegularChannel ''P'' Integer) ''2.5'' 0
     = Ok ((RegularChannel ''P'' Integer)\<lparr>rc_values := [PyInt 2]\<rparr>)
   \<and> signed_number ''2.5'' 0 True = Ok (PyFloat (Finite (5 / 2)), ''2.5'')
   \<and> round_half_away (5 / 2) = 3"
  by code_simp

text \<open>
  Claim C5, amended. For every channel of type integer, regular or intermittent, a
  numeric token appends an integer: the decoded value (the number itself, or the previous
  value plus the number, or the previous value plus the carry plus the number, as Python
  computes them) is a finite number, and the integer is the one nearest to it, an exact
  half going to the even neighbour; that integer is unique.
\<close>

theorem integer_values_round_half_even:
  "(rc_type channel = Integer \<and> token \<noteq> ''*''
      \<and> process_regular_token channel token j = Ok ch' \<longrightarrow>
      (\<exists>num tok v q.
         signed_number (strip (snd (split_marker token))) j True = Ok (num, tok)
         \<and> decoded_value channel (rc_difference_order ch') num = Inr v
         \<and> number_value v = Some q
         \<and> rc_values ch' = rc_values channel @ [PyInt (round_half_even q)]))
   \<and> (ic_type ichannel = Integer \<and> itoken \<noteq> ''*'' \<and> itoken \<noteq> ''?''
      \<and> process_intermittent_token i ichannel itoken k = Ok ich' \<longrightarrow>
      (\<exists>num tok q.
         signed_number itoken k False = Ok (num, tok)
         \<and> number_value num = Some q
         \<and> ic_index_values ich' = ic_index_values ichannel @ [(i, PyInt (round_half_even q))]))
   \<and> \<bar>x - of_int (round_half_even x)\<bar> \<le> 1 / 2
   \<and> (\<bar>x - of_int (round_half_even x)\<bar> = 1 / 2 \<longrightarrow> even (round_half_even x))
   \<and> (\<bar>x - of_int n\<bar> \<le> 1 / 2 \<and> (\<bar>x - of_int n\<bar> = 1 / 2 \<longrightarrow> even n)
        \<longrightarrow> n = round_half_even x)"
proof (intro conjI impI)
  assume a: "rc_type channel = Integer \<and> token \<noteq> ''*''
      \<and> process_regular_token channel token j = Ok ch'"
  then obtain num tok where
    s: "signed_number (strip (snd (split_marker token))) j True = Ok (num, tok)"
    and v: "add_value channel
              (case fst (split_marker token) of
                 None \<Rightarrow> rc_difference_order channel
               | Some d \<Rightarrow> d) num tok j = Ok ch'"
    using process_regular_token_numeric [of channel token j ch'] by auto
  from add_value_Ok [OF v] a obtain v w where
    d: "decoded_value channel (rc_difference_order ch') num = Inr v"
    and r: "py_round v = Inr w" and l: "rc_values ch' = rc_values channel @ [w]"
    by (auto simp: round_if_integer_def)
  from py_round_value [OF r] obtain q where
    "number_value v = Some q" "w = PyInt (round_half_even q)" by blast
  with s d l
  show "\<exists>num tok v q.
         signed_number (strip (snd (split_marker token))) j True = Ok (num, tok)
         \<and> decoded_value channel (rc_difference_order ch') num = Inr v
         \<and> number_value v = Some q
         \<and> rc_values ch' = rc_values channel @ [PyInt (round_half_even q)]"
    by blast
next
  assume "ic_type ichannel = Integer \<and> itoken \<noteq> ''*'' \<and> itoken \<noteq> ''?''
      \<and> process_intermittent_token i ichannel itoken k = Ok ich'"
  then obtain num tok w where
    s: "signed_number itoken k False = Ok (num, tok)"
    and r: "py_round num = Inr w"
    and l: "ic_index_values ich' = ic_index_values ichannel @ [(i, w)]"
    by (auto simp: process_intermittent_token_def round_if_integer_def raising_def
        split: if_splits outcome.splits sum.splits)
  from py_round_value [OF r] obtain q where
    "number_value num = Some q" "w = PyInt (round_half_even q)" by blast
  with s l
  show "\<exists>num tok q.
         signed_number itoken k False = Ok (num, tok)
         \<and> number_value num = Some q
         \<and> ic_index_values ich' = ic_index_values ichannel @ [(i, PyInt (round_half_even q))]"
    by blast
next
  show "\<bar>x - of_int (round_half_even x)\<bar> \<le> 1 / 2" by (rule round_half_even_nearest)
next
  assume "\<bar>x - of_int (round_half_even x)\<bar> = 1 / 2"
  then show "even (round_half_even x)" by (rule round_half_even_tie)
next
  assume "\<bar>x - of_int n\<bar> \<le> 1 / 2 \<and> (\<bar>x - of_int n\<bar> = 1 / 2 \<longrightarrow> even n)"
  then show "n = round_half_even x" using round_half_even_unique [of x n] by blast
qed

theorem integer_values_round_half_even_witness:
  "(\<exists>num tok v q.
      signed_number (strip (snd (split_marker ''2.5''))) 0 True = Ok (num, tok)
      \<and> decoded_value (RegularChannel ''P'' Integer) Explicit num = Inr v
      \<and> number_value v = Some q
      \<and> [PyInt 2] = [PyInt (round_half_even q)])
   \<and> (\<exists>num tok q.
      signed_number ''-3.5'' 2 False = Ok (num, tok)
      \<and> number_value num = Some q
      \<and> [(0::nat, PyInt (- 4))] = [(0, PyInt (round_half_even q))])
   \<and> even (round_half_even (5 / 2)) \<and> round_half_even (5 / 2) = 2"
proof -
  have r: "process_regular_token (RegularChannel ''P'' Integer) ''2.5'' 0
       = Ok ((RegularChannel ''P'' Integer)\<lparr>rc_values := [PyInt 2]\<rparr>)"
    by code_simp
  have i: "process_intermittent_token 0 (IntermittentChannel ''F'' Integer) ''-3.5'' 2
       = Ok ((IntermittentChannel ''F'' Integer)\<lparr>ic_index_values := [(0, PyInt (- 4))]\<rparr>)"
    by code_simp
  have h: "\<bar>5 / 2 - of_int (2::int)\<bar> = (1 / 2 :: rat)" by simp
  note t = integer_values_round_half_even
    [where channel = "RegularChannel ''P'' Integer" and token = "''2.5''" and j = 0
       and ch' = "(RegularChannel ''P'' Integer)\<lparr>rc_values := [PyInt 2]\<rparr>"
       and ichannel = "IntermittentChannel ''F'' Integer" and itoken = "''-3.5''"
       and i = 0 and k = 2
       and ich' = "(IntermittentChannel ''F'' Integer)\<lparr>ic_index_values := [(0, PyInt (- 4))]\<rparr>"
       and x = "5 / 2" and n = 2]
  from t r have 1: "\<exists>num tok v q.
      signed_number (strip (snd (split_marker ''2.5''))) 0 True = Ok (num, tok)
      \<and> decoded_value (RegularChannel ''P'' Integer) Explicit num = Inr v
      \<and> number_value v = Some q
      \<and> [PyInt 2] = [PyInt (round_half_even q)]"
    by (simp add: RegularChannel_def decoded_value_def)
  from t i have 2: "\<exists>num tok q.
      signed_number ''-3.5'' 2 False = Ok (num, tok)
      \<and> number_value num = Some q
      \<and> [(0::nat, PyInt (- 4))] = [(0, PyInt (round_half_even q))]"
    by (simp add: IntermittentChannel_def)
  from t h have 3: "round_half_even (5 / 2) = 2" by simp
  from 1 2 3 show ?thesis by simp
qed


subsection \<open>Difference orders\<close>

lemma regular_loop_nth:
  assumes "distinct js" "regular_loop tokens chans js = Ok chans'"
  shows "length chans' = length chans
    \<and> (\<forall>j\<in>set js. process_regular_token (chans ! j) (tokens ! j) j = Ok (chans' ! j))
    \<and> (\<forall>j. j \<notin> set js \<longrightarrow> chans' ! j = chans ! j)"
  using assms
proof (induction js arbitrary: chans)
  case Nil
  then show ?case by simp
next
  case (Cons j js)
  from Cons.prems(2) obtain ch where g: "j < length tokens" "j < length chans"
    and p: "process_regular_token (chans ! j) (tokens ! j) j = Ok ch"
    and l: "regular_loop tokens (chans[j := ch]) js = Ok chans'"
    by (auto split: if_splits outcome.splits)
  from Cons.prems(1) have d: "distinct js" "j \<notin> set js" by auto
  from Cons.IH [OF d(1) l]
  have ih: "length chans' = length chans"
    "\<forall>k\<in>set js. process_regular_token (chans[j := ch] ! k) (tokens ! k) k = Ok (chans' ! k)"
    "\<forall>k. k \<notin> set js \<longrightarrow> chans' ! k = chans[j := ch] ! k"
    by simp_all
  from ih(3) d(2) g(2) have "chans' ! j = ch" by simp
  moreover have "process_regular_token (chans ! k) (tokens ! k) k = Ok (chans' ! k)"
    if "k \<in> set js" for k
  proof -
    from that d(2) have "k \<noteq> j" by auto
    with ih(2) that show ?thesis by auto
  qed
  moreover have "chans' ! k = chans ! k" if "k \<notin> set (j # js)" for k
    using that ih(3) by auto
  ultimately show ?case using ih(1) p by auto
qed

lemma process_regular_token_carry_ok:
  assumes "carry_ok channel" "process_regular_token channel token j = Ok ch'"
  shows "carry_ok ch'"
  using assms
  by (auto simp: process_regular_token_def add_value_def carry_ok_def raising_def
      split: if_splits prod.splits outcome.splits difference_order.splits sum.splits)

lemma add_value_spec:
  assumes "order = SecondDifference \<longrightarrow> math_isnan (rc_last_difference channel) = Inr False
             \<longrightarrow> rc_values channel \<noteq> []"
  shows "add_value channel order num tok j =
     (if order = Difference \<and> rc_values channel = [] then Warn (UnexpectedValue tok j True)
      else if order = SecondDifference \<and> math_isnan (rc_last_difference channel) \<noteq> Inr False
      then (case math_isnan (rc_last_difference channel) of
              Inl e \<Rightarrow> Raise e
            | Inr nan \<Rightarrow> Warn (UnexpectedValue tok j True))
      else
        raising (decoded_value channel order num)
          (\<lambda>s. raising (round_if_integer (rc_type channel) s)
          (\<lambda>v. raising (next_carry channel order num)
          (\<lambda>carry. Ok (channel\<lparr>rc_values := rc_values channel @ [v],
                               rc_last_difference := carry,
                               rc_difference_order := order\<rparr>)))))"
  using assms
  by (cases order)
     (auto simp: add_value_def decoded_value_def next_carry_def raising_def split: sum.splits)

lemma math_isnan_carry:
  "math_isnan c = Inr True \<longleftrightarrow> c = PyFloat NaN"
  using round_double_not_nan
  by (auto simp: math_isnan_def to_float_def int_to_float_def split: number.splits sum.splits
      double.splits)

text \<open>
  Claim C1, as stated, fails on integer channels, which are regular channels that are
  not boolean: the token \<^verbatim>\<open>1.6\<close> is read as a float under the order Explicit, and the
  value appended is the integer 2.
\<close>

theorem explicit_value_counterexample:
  "split_marker ''1.6'' = (None, ''1.6'')
   \<and> signed_number (strip ''1.6'') 0 True
       = Ok (PyFloat (Finite (3602879701896397 / 2251799813685248)), ''1.6'')
   \<and> process_regular_token (RegularChannel ''P'' Integer) ''1.6'' 0
       = Ok ((RegularChannel ''P'' Integer)\<lparr>rc_values := [PyInt 2]\<rparr>)
   \<and> PyInt 2 \<noteq> PyFloat (Finite (3602879701896397 / 2251799813685248))
   \<and> number_value (PyInt 2)
       \<noteq> number_value (PyFloat (Finite (3602879701896397 / 2251799813685248)))"
  by code_simp

text \<open>
  Claim C1, amended. For every regular channel that is not boolean and every numeric
  token (one that is not the wildcard and whose text after the marker reads as a number),
  the effective difference order is the marker \<^verbatim>\<open>!\<close>, \<^verbatim>\<open>'\<close> or \<^verbatim>\<open>"\<close> when present,
  otherwise the current order of the channel, initially Explicit. Under Explicit the
  decoded value is the number and the carry is reset to NaN; under FirstDifference,
  which requires a previous value, it is the previous value plus the number and the carry
  becomes the number; under SecondDifference, which requires a carry that is not NaN, it
  is the previous value plus the carry plus the number and the carry grows by the number.
  Where a requirement fails the decoder warns. The sums are those of Python, on floats
  rounded to the nearest float; the decoded value is rounded to an integer when the type
  of the channel is integer, and an exception of a sum or of the rounding leaves the
  decoder. Otherwise the value is appended and the current order of the channel becomes
  the effective order. A channel that carries a difference always holds a previous
  value, whatever tokens it has taken, and at every point the token at position \<open>k\<close> is
  the one that channel \<open>k\<close> takes.
\<close>

theorem numeric_token_difference_order:
  assumes "rc_type channel \<noteq> Boolean" and "token \<noteq> ''*''"
    and "split_marker token = (marker, rest)"
    and "signed_number (strip rest) j True = Ok (num, tok)"
    and "carry_ok channel"
    and "order = (case marker of None \<Rightarrow> rc_difference_order channel | Some d \<Rightarrow> d)"
  shows "process_regular_token channel token j =
     (if order = Difference \<and> rc_values channel = [] then Warn (UnexpectedValue tok j True)
      else if order = SecondDifference \<and> math_isnan (rc_last_difference channel) \<noteq> Inr False
      then (case math_isnan (rc_last_difference channel) of
              Inl e \<Rightarrow> Raise e
            | Inr nan \<Rightarrow> Warn (UnexpectedValue tok j True))
      else
        raising (decoded_value channel order num)
          (\<lambda>s. raising (round_if_integer (rc_type channel) s)
          (\<lambda>v. raising (next_carry channel order num)
          (\<lambda>carry. Ok (channel\<lparr>rc_values := rc_values channel @ [v],
                               rc_last_difference := carry,
                               rc_difference_order := order\<rparr>)))))
   \<and> (\<forall>c t k c'. carry_ok c \<and> process_regular_token c t k = Ok c' \<longrightarrow> carry_ok c')
   \<and> (\<forall>tokens chans chans'.
         regular_loop tokens chans [0..<length chans] = Ok chans' \<longrightarrow>
         (\<forall>k<length chans.
            process_regular_token (chans ! k) (tokens ! k) k = Ok (chans' ! k)))
   \<and> carry_ok (RegularChannel nm t)
   \<and> rc_difference_order (RegularChannel nm t) = Explicit
   \<and> rc_last_difference (RegularChannel nm t) = PyFloat NaN
   \<and> rc_values (RegularChannel nm t) = []
   \<and> (math_isnan c = Inr True \<longleftrightarrow> c = PyFloat NaN)
   \<and> round_if_integer t v = (if t = Integer then py_round v else Inr v)"
proof -
  from assms(3,4) have "token \<noteq> []"
    by (auto simp: split_marker_def signed_number_def strip_def)
  with assms have "process_regular_token channel token j = add_value channel order num tok j"
    by (simp add: process_regular_token_def)
  moreover from assms(5)
  have "order = SecondDifference \<longrightarrow> math_isnan (rc_last_difference channel) = Inr False
          \<longrightarrow> rc_values channel \<noteq> []"
    by (auto simp: carry_ok_def math_isnan_def to_float_def)
  ultimately have main: "process_regular_token channel token j =
     (if order = Difference \<and> rc_values channel = [] then Warn (UnexpectedValue tok j True)
      else if order = SecondDifference \<and> math_isnan (rc_last_difference channel) \<noteq> Inr False
      then (case math_isnan (rc_last_difference channel) of
              Inl e \<Rightarrow> Raise e
            | Inr nan \<Rightarrow> Warn (UnexpectedValue tok j True))
      else
        raising (decoded_value channel order num)
          (\<lambda>s. raising (round_if_integer (rc_type channel) s)
          (\<lambda>v. raising (next_carry channel order num)
          (\<lambda>carry. Ok (channel\<lparr>rc_values := rc_values channel @ [v],
                               rc_last_difference := carry,
                               rc_difference_order := order\<rparr>)))))"
    by (simp only: add_value_spec)
  have inv: "\<forall>c t k c'. carry_ok c \<and> process_regular_token c t k = Ok c' \<longrightarrow> carry_ok c'"
    using process_regular_token_carry_ok by blast
  have loop: "\<forall>tokens chans chans'.
         regular_loop tokens chans [0..<length chans] = Ok chans' \<longrightarrow>
         (\<forall>k<length chans.
            process_regular_token (chans ! k) (tokens ! k) k = Ok (chans' ! k))"
  proof (intro allI impI)
    fix tokens chans chans' k
    assume "regular_loop tokens chans [0..<length chans] = Ok chans'" "k < length chans"
    with regular_loop_nth [of "[0..<length chans]" tokens chans chans']
    show "process_regular_token (chans ! k) (tokens ! k) k = Ok (chans' ! k)" by simp
  qed
  have init: "carry_ok (RegularChannel nm t)"
    "rc_difference_order (RegularChannel nm t) = Explicit"
    "rc_last_difference (RegularChannel nm t) = PyFloat NaN"
    "rc_values (RegularChannel nm t) = []"
    "round_if_integer t v = (if t = Integer then py_round v else Inr v)"
    by (simp_all add: carry_ok_def RegularChannel_def round_if_integer_def)
  note nan = math_isnan_carry [of c]
  from main inv loop init(1-4) nan init(5) show ?thesis by (intro conjI)
qed

theorem numeric_token_difference_order_witness:
  "process_regular_token
     \<lparr>rc_name = ''X'', rc_type = Decimal, rc_values = [PyFloat (Finite 10), PyFloat (Finite 11)],
      rc_difference_order = Difference, rc_last_difference = PyFloat (Finite 1)\<rparr>
     [CHR 0x22, CHR ''2''] 0
   = Ok \<lparr>rc_name = ''X'', rc_type = Decimal,
         rc_values = [PyFloat (Finite 10), PyFloat (Finite 11), PyFloat (Finite 14)],
         rc_difference_order = SecondDifference, rc_last_difference = PyFloat (Finite 3)\<rparr>"
proof -
  define channel where "channel =
     \<lparr>rc_name = ''X'', rc_type = Decimal, rc_values = [PyFloat (Finite 10), PyFloat (Finite 11)],
      rc_difference_order = Difference, rc_last_difference = PyFloat (Finite 1)\<rparr>"
  have 1: "rc_type channel \<noteq> Boolean" by (simp add: channel_def)
  have 2: "[CHR 0x22, CHR ''2''] \<noteq> ''*''" by simp
  have 3: "split_marker [CHR 0x22, CHR ''2''] = (Some SecondDifference, ''2'')"
    by (simp add: split_marker_def)
  have 4: "signed_number (strip ''2'') 0 True = Ok (PyFloat (Finite 2), ''2'')" by code_simp
  have 5: "carry_ok channel" by (simp add: channel_def carry_ok_def)
  have 6: "SecondDifference
      = (case Some SecondDifference of None \<Rightarrow> rc_difference_order channel | Some d \<Rightarrow> d)"
    by simp
  have n: "math_isnan (PyFloat (Finite 1)) = Inr False" by code_simp
  have d: "decoded_value channel SecondDifference (PyFloat (Finite 2))
      = Inr (PyFloat (Finite 14))"
    unfolding channel_def by code_simp
  have c: "next_carry channel SecondDifference (PyFloat (Finite 2)) = Inr (PyFloat (Finite 3))"
    unfolding channel_def by code_simp
  from numeric_token_difference_order [OF 1 2 3 4 5 6] n d c
  show ?thesis by (simp add: channel_def raising_def round_if_integer_def)
qed


subsection \<open>First differences against the explicit form\<close>
















subsection \<open>Reading a trace element\<close>

lemma same_tables_refl: "same_tables s s" by (simp add: same_tables_def)





















lemma get_trace_format_context:
  "tr_context t = tr_context t' \<Longrightarrow> get_trace_format t ctx = get_trace_format t' ctx"
  by (simp add: get_trace_format_def)















subsection \<open>The parents of the brushes\<close>

lemma same_refs_refl: "same_refs brs brs" by (simp add: same_refs_def)

lemma same_refs_trans: "same_refs a b \<Longrightarrow> same_refs b c \<Longrightarrow> same_refs a c"
  unfolding same_refs_def by (erule ssubst)

lemma same_refs_sym: "same_refs a b \<Longrightarrow> same_refs b a"
  unfolding same_refs_def by (erule sym)

lemma map_of_refs: "map_of (refs brs) i = map_option be_parent_ref (map_of brs i)"
  unfolding refs_def by (induction brs) auto

lemma keys_refs: "map fst (refs brs) = map fst brs"
  unfolding refs_def by (induction brs) auto

lemma same_refs_keys: "same_refs brs cur \<Longrightarrow> map fst cur = map fst brs"
  unfolding same_refs_def using keys_refs by metis

lemma same_refs_ref:
  "same_refs brs cur \<Longrightarrow> map_option be_parent_ref (map_of cur i) = map_option be_parent_ref (map_of brs i)"
  unfolding same_refs_def using map_of_refs by metis

lemma same_refs_Some:
  assumes "same_refs brs cur" "map_of brs i = Some e"
  shows "\<exists>e'. map_of cur i = Some e' \<and> be_parent_ref e' = be_parent_ref e"
  using same_refs_ref [OF assms(1), of i] assms(2) by auto

lemma same_refs_grounded_imp:
  assumes "same_refs brs cur" "grounded brs i"
  shows "grounded cur i"
  using assms(2)
proof (induction rule: grounded.induct)
  case (terminal i e)
  with same_refs_Some [OF assms(1)] obtain e' where
    "map_of cur i = Some e'" "be_parent_ref e' = be_parent_ref e"
    by blast
  with terminal show ?case by (auto intro: grounded.terminal simp: is_terminal_def)
next
  case (parent i e)
  with same_refs_Some [OF assms(1)] obtain e' where
    "map_of cur i = Some e'" "be_parent_ref e' = be_parent_ref e"
    by blast
  with parent show ?case by (auto intro: grounded.parent simp: is_terminal_def parent_id_def)
qed

lemma same_refs_grounded: "same_refs brs cur \<Longrightarrow> grounded cur i = grounded brs i"
  using same_refs_grounded_imp same_refs_sym by blast

lemma refs_update:
  "refs (AList.update i e' cur) = AList.update i (be_parent_ref e') (refs cur)"
  unfolding refs_def by (induction cur) auto

lemma same_refs_update:
  assumes "map_of cur i = Some e" "be_parent_ref e' = be_parent_ref e"
  shows "same_refs cur (AList.update i e' cur)"
proof -
  from assms have "map_of (refs cur) i = Some (be_parent_ref e')" by (simp add: map_of_refs)
  then have "AList.update i (be_parent_ref e') (refs cur) = refs cur" by (rule update_triv)
  then show ?thesis by (simp add: same_refs_def refs_update)
qed

lemma set_parent_ref [simp]: "be_parent_ref (set_parent p e) = be_parent_ref e"
  by (simp add: set_parent_def)

lemma ready_same_refs:
  assumes "same_refs brs cur"
  shows "ready cur resolved i = ready brs resolved i"
  using same_refs_ref [OF assms, of i]
  by (auto simp: ready_def parent_id_def split: option.splits)

lemma resolve_stage_result:
  assumes "set ids \<subseteq> fst ` set cur" "set resolved \<subseteq> fst ` set cur"
    and "set ids \<inter> set resolved = {}" "distinct ids"
  shows "\<exists>cur'. resolve_stage cur resolved ids = Inr (cur', filter (ready cur resolved) ids)
           \<and> same_refs cur cur'
           \<and> (\<forall>i. map_of cur' i = linked cur resolved (set ids) i)"
  using assms
proof (induction ids arbitrary: cur)
  case Nil
  then show ?case by (auto simp: same_refs_refl linked_def split: option.splits)
next
  case (Cons i ids)
  from Cons.prems(1) obtain e where e: "map_of cur i = Some e"
    by (metis list.set_intros(1) map_of_eq_None_iff not_None_eq subsetD)
  show ?case
  proof (cases "parent_id e \<in> set resolved")
    case False
    from Cons.prems have "set ids \<subseteq> fst ` set cur" "set ids \<inter> set resolved = {}" "distinct ids"
      by auto
    from Cons.IH [OF this(1) Cons.prems(2) this(2,3)]
    obtain cur' where c: "resolve_stage cur resolved ids = Inr (cur', filter (ready cur resolved) ids)"
      "same_refs cur cur'" "\<forall>j. map_of cur' j = linked cur resolved (set ids) j"
      by blast
    have "\<forall>j. linked cur resolved (set (i # ids)) j = linked cur resolved (set ids) j"
      using e False by (auto simp: linked_def split: option.splits)
    moreover have "\<not> ready cur resolved i" using e False by (simp add: ready_def)
    ultimately show ?thesis using c e False
      by (simp add: parent_id_def)
  next
    case True
    with Cons.prems(2) obtain p where p: "map_of cur (parent_id e) = Some p"
      by (metis map_of_eq_None_iff not_None_eq subsetD)
    define cur1 where "cur1 = AList.update i (set_parent (be_brush p) e) cur"
    have sr: "same_refs cur cur1" unfolding cur1_def using e by (rule same_refs_update) simp
    then have keys: "map fst cur1 = map fst cur" by (rule same_refs_keys)
    with Cons.prems have "set ids \<subseteq> fst ` set cur1" "set resolved \<subseteq> fst ` set cur1"
      "set ids \<inter> set resolved = {}" "distinct ids"
      by (auto simp flip: set_map)
    from Cons.IH [OF this]
    obtain cur' where c: "resolve_stage cur1 resolved ids = Inr (cur', filter (ready cur1 resolved) ids)"
      "same_refs cur1 cur'" "\<forall>j. map_of cur' j = linked cur1 resolved (set ids) j"
      by blast
    have f: "filter (ready cur1 resolved) ids = filter (ready cur resolved) ids"
      by (rule filter_cong) (simp_all add: ready_same_refs [OF sr])
    have m1: "map_of cur1 = (map_of cur)(i \<mapsto> set_parent (be_brush p) e)"
      by (simp add: cur1_def update_conv')
    have ni: "i \<notin> set ids" "i \<notin> set resolved" using Cons.prems by auto
    have r: "ready cur resolved i" using e True by (simp add: ready_def)
    have "linked cur1 resolved (set ids) j = linked cur resolved (set (i # ids)) j" for j
    proof (cases "j = i")
      case True
      with ni e p \<open>parent_id e \<in> set resolved\<close> show ?thesis
        by (simp add: linked_def m1)
    next
      case False
      show ?thesis
      proof (cases "map_of cur j")
        case None
        with False show ?thesis by (simp add: linked_def m1)
      next
        case (Some ej)
        have "parent_id ej \<in> set resolved \<Longrightarrow> map_of cur1 (parent_id ej) = map_of cur (parent_id ej)"
          using ni by (auto simp: m1)
        with False Some show ?thesis by (auto simp: linked_def m1)
      qed
    qed
    then have "\<forall>j. map_of cur' j = linked cur resolved (set (i # ids)) j"
      using c(3) by simp
    moreover have "same_refs cur cur'" using sr c(2) by (rule same_refs_trans)
    moreover have "resolve_stage cur resolved (i # ids)
        = Inr (cur', filter (ready cur resolved) (i # ids))"
      using c(1) f e p True r by (simp add: parent_id_def cur1_def)
    ultimately show ?thesis by blast
  qed
qed

lemma map_of_Some_key: "map_of al k = Some v \<Longrightarrow> k \<in> fst ` set al"
  by (auto dest: map_of_SomeD intro: rev_image_eqI)

lemma key_map_of: "k \<in> fst ` set al \<Longrightarrow> \<exists>v. map_of al k = Some v"
  by (cases "map_of al k") (auto simp: map_of_eq_None_iff)

lemma stuck_not_grounded:
  assumes "\<forall>i e. map_of brs i = Some e \<and> is_terminal e \<longrightarrow> i \<in> set resolved"
    and "set backlog \<union> set resolved = fst ` set brs"
    and "\<forall>i\<in>set backlog. \<not> ready brs resolved i"
    and "grounded brs i"
  shows "i \<in> set resolved"
  using assms(4)
proof (induction rule: grounded.induct)
  case (terminal i e)
  with assms(1) show ?case by blast
next
  case (parent i e)
  from parent(1) have "i \<in> fst ` set brs" by (rule map_of_Some_key)
  with assms(2) have "i \<in> set backlog \<or> i \<in> set resolved" by blast
  moreover from parent have "ready brs resolved i" by (simp add: ready_def)
  ultimately show ?case using assms(3) by blast
qed

lemma linked_idle:
  assumes "\<forall>i\<in>ids. \<not> ready cur resolved i"
  shows "linked cur resolved ids i = map_of cur i"
  using assms by (auto simp: linked_def ready_def split: option.splits)

lemma linked_outside:
  assumes "i \<notin> ids"
  shows "linked cur resolved ids i = map_of cur i"
  using assms by (auto simp: linked_def split: option.splits)

lemma settled_mono:
  assumes "settled brs cur R i" "R \<subseteq> R'"
    and "\<forall>j\<in>insert i R. map_of cur' j = map_of cur j"
  shows "settled brs cur' R' i"
proof (cases "map_of brs i")
  case None
  with assms(1) show ?thesis by (simp add: settled_def)
next
  case (Some e)
  show ?thesis
  proof (cases "is_terminal e")
    case True
    with Some assms(1,3) show ?thesis by (simp add: settled_def)
  next
    case False
    with Some assms(1) obtain p where p: "parent_id e \<in> R" "map_of cur (parent_id e) = Some p"
      "map_of cur i = Some (set_parent (be_brush p) e)"
      by (auto simp: settled_def split: option.splits)
    with assms(2,3) have "parent_id e \<in> R'" "map_of cur' (parent_id e) = Some p"
      "map_of cur' i = Some (set_parent (be_brush p) e)"
      by auto
    with Some False show ?thesis by (simp add: settled_def)
  qed
qed

lemma inv_step:
  assumes i: "inv brs cur backlog resolved"
    and st: "resolve_stage cur resolved backlog = Inr (cur', stage_ids)"
  shows "stage_ids = filter (ready brs resolved) backlog
    \<and> inv brs cur' (filter (\<lambda>i. i \<notin> set stage_ids) backlog) (resolved @ stage_ids)
    \<and> (\<forall>j. map_of cur' j = linked cur resolved (set backlog) j)"
proof -
  from i have sr: "same_refs brs cur" and d: "distinct backlog"
    and dj: "set backlog \<inter> set resolved = {}"
    and un: "set backlog \<union> set resolved = fst ` set brs"
    and gr: "\<forall>i\<in>set resolved. grounded brs i \<and> settled brs cur (set resolved) i"
    and tm: "\<forall>i e. map_of brs i = Some e \<and> is_terminal e \<longrightarrow> i \<in> set resolved"
    and bl: "\<forall>i\<in>set backlog. map_of cur i = map_of brs i"
    by (simp_all add: inv_def)
  have keys: "fst ` set cur = fst ` set brs"
    using same_refs_keys [OF sr] by (metis set_map)
  with un have "set backlog \<subseteq> fst ` set cur" "set resolved \<subseteq> fst ` set cur" by auto
  from resolve_stage_result [OF this dj d] st
  have s1: "stage_ids = filter (ready cur resolved) backlog" and s2: "same_refs cur cur'"
    and s3: "\<forall>j. map_of cur' j = linked cur resolved (set backlog) j"
    by auto
  have s1': "stage_ids = filter (ready brs resolved) backlog"
    unfolding s1 by (rule filter_cong) (simp_all add: ready_same_refs [OF sr])
  define backlog' where "backlog' = filter (\<lambda>i. i \<notin> set stage_ids) backlog"
  define resolved' where "resolved' = resolved @ stage_ids"
  have sets: "set stage_ids \<subseteq> set backlog" "set backlog' = set backlog - set stage_ids"
    "set resolved' = set resolved \<union> set stage_ids"
    by (auto simp: s1 backlog'_def resolved'_def)
  have 1: "same_refs brs cur'" using sr s2 by (rule same_refs_trans)
  have 2: "distinct backlog'" using d by (simp add: backlog'_def)
  have 3: "set backlog' \<inter> set resolved' = {}" using dj sets by auto
  have 4: "set backlog' \<union> set resolved' = fst ` set brs" using un sets by auto
  have old: "map_of cur' j = map_of cur j" if "j \<in> set resolved" for j
  proof -
    from that dj have "j \<notin> set backlog" by auto
    then have "linked cur resolved (set backlog) j = map_of cur j" by (rule linked_outside)
    with s3 show ?thesis by simp
  qed
  have 5: "grounded brs j \<and> settled brs cur' (set resolved') j" if j: "j \<in> set resolved'" for j
  proof (cases "j \<in> set resolved")
    case True
    with gr have g: "grounded brs j" "settled brs cur (set resolved) j" by auto
    have a: "\<forall>k\<in>insert j (set resolved). map_of cur' k = map_of cur k"
      using True old by auto
    have b: "set resolved \<subseteq> set resolved'" using sets by auto
    from settled_mono [OF g(2) b a] g(1) show ?thesis by simp
  next
    case False
    with j sets have js: "j \<in> set stage_ids" "j \<in> set backlog" by auto
    from js un have "j \<in> fst ` set brs" by auto
    from key_map_of [OF this] bl js obtain e where
      e: "map_of brs j = Some e" "map_of cur j = Some e"
      by auto
    from js s1' have r: "ready brs resolved j" by simp
    with e have pr: "parent_id e \<in> set resolved" by (simp add: ready_def)
    with gr have "grounded brs (parent_id e)" by blast
    with e(1) have g: "grounded brs j" by (rule grounded.parent)
    from pr keys un have "parent_id e \<in> fst ` set cur" by auto
    from key_map_of [OF this] obtain p where p: "map_of cur (parent_id e) = Some p"
      by blast
    from s3 js e p pr have m: "map_of cur' j = Some (set_parent (be_brush p) e)"
      by (simp add: linked_def)
    from old [OF pr] p have "map_of cur' (parent_id e) = Some p" by simp
    with m pr e sets tm False have "settled brs cur' (set resolved') j"
      by (auto simp: settled_def)
    with g show ?thesis by simp
  qed
  have 6: "\<forall>i e. map_of brs i = Some e \<and> is_terminal e \<longrightarrow> i \<in> set resolved'"
    using tm sets by auto
  have 7: "map_of cur' j = map_of brs j" if "j \<in> set backlog'" for j
  proof -
    from that sets s1 have "j \<in> set backlog" "\<not> ready cur resolved j" by auto
    then have "linked cur resolved (set backlog) j = map_of cur j"
      by (auto simp: linked_def ready_def split: option.splits)
    with s3 bl \<open>j \<in> set backlog\<close> show ?thesis by simp
  qed
  from 1 2 3 4 5 6 7 have "inv brs cur' backlog' resolved'" by (simp add: inv_def)
  with s1' s3 show ?thesis by (simp add: backlog'_def resolved'_def)
qed

lemma resolve_stage_total:
  assumes "inv brs cur backlog resolved"
  shows "\<exists>cur' stage_ids. resolve_stage cur resolved backlog = Inr (cur', stage_ids)"
proof -
  from assms have sr: "same_refs brs cur" and d: "distinct backlog"
    and dj: "set backlog \<inter> set resolved = {}"
    and un: "set backlog \<union> set resolved = fst ` set brs"
    by (simp_all add: inv_def)
  have "fst ` set cur = fst ` set brs"
    using same_refs_keys [OF sr] by (metis set_map)
  with un have "set backlog \<subseteq> fst ` set cur" "set resolved \<subseteq> fst ` set cur" by auto
  from resolve_stage_result [OF this dj d] show ?thesis by blast
qed

lemma resolve_loop_result:
  assumes "inv brs cur backlog resolved"
  shows "\<exists>cur' rest. resolve_loop cur backlog resolved = Inr (cur', rest)
           \<and> same_refs brs cur' \<and> distinct rest
           \<and> set rest = {i \<in> fst ` set brs. \<not> grounded brs i}
           \<and> (\<forall>i. grounded brs i \<longrightarrow> settled brs cur' {i. grounded brs i} i)"
  using assms
proof (induction cur backlog resolved rule: resolve_loop.induct)
  case (1 cur backlog resolved)
  note i = "1.prems"
  from i have sr: "same_refs brs cur" and d: "distinct backlog"
    and dj: "set backlog \<inter> set resolved = {}"
    and un: "set backlog \<union> set resolved = fst ` set brs"
    and gr: "\<forall>i\<in>set resolved. grounded brs i \<and> settled brs cur (set resolved) i"
    and tm: "\<forall>i e. map_of brs i = Some e \<and> is_terminal e \<longrightarrow> i \<in> set resolved"
    by (simp_all add: inv_def)
  have gk: "grounded brs j \<Longrightarrow> j \<in> fst ` set brs" for j
    by (erule grounded.cases) (auto dest: map_of_Some_key)
  show ?case
  proof (cases "backlog = []")
    case True
    with un gr gk have "{i \<in> fst ` set brs. \<not> grounded brs i} = {}"
      "set resolved = {i. grounded brs i}"
      by auto
    with True sr gr show ?thesis by (subst resolve_loop.simps) auto
  next
    case ne: False
    from resolve_stage_total [OF i] obtain cur' stage_ids where
      st: "resolve_stage cur resolved backlog = Inr (cur', stage_ids)" by blast
    from inv_step [OF i st]
    have s: "stage_ids = filter (ready brs resolved) backlog"
      and i': "inv brs cur' (filter (\<lambda>i. i \<notin> set stage_ids) backlog) (resolved @ stage_ids)"
      and m: "\<forall>j. map_of cur' j = linked cur resolved (set backlog) j"
      by auto
    show ?thesis
    proof (cases "stage_ids = []")
      case True
      with s have "filter (ready brs resolved) backlog = []" by simp
      then have nr: "\<forall>i\<in>set backlog. \<not> ready brs resolved i"
        by (simp only: filter_empty_conv)
      have res: "set resolved = {i. grounded brs i}"
        using stuck_not_grounded [OF tm un nr] gr by auto
      with dj un gk have rest: "set backlog = {i \<in> fst ` set brs. \<not> grounded brs i}"
        by auto
      from i' True have "inv brs cur' backlog resolved" by simp
      then have "same_refs brs cur'"
        "\<forall>i\<in>set resolved. settled brs cur' (set resolved) i"
        by (simp_all add: inv_def)
      with res rest d ne st True show ?thesis
        by (subst resolve_loop.simps) auto
    next
      case False
      from "1.IH" [OF ne st refl False i']
      obtain cur'' rest where
        "resolve_loop cur' (filter (\<lambda>i. i \<notin> set stage_ids) backlog) (resolved @ stage_ids)
           = Inr (cur'', rest)"
        "same_refs brs cur''" "distinct rest"
        "set rest = {i \<in> fst ` set brs. \<not> grounded brs i}"
        "\<forall>i. grounded brs i \<longrightarrow> settled brs cur'' {i. grounded brs i} i"
        by blast
      with ne st False show ?thesis
        by (subst resolve_loop.simps) auto
    qed
  qed
qed

lemma wf_brushes_map_of:
  assumes "wf_brushes brs"
  shows "((k, e) \<in> set brs) = (map_of brs k = Some e)"
    and "map_of brs k = Some e \<Longrightarrow> brush_id (be_brush e) = k"
proof -
  from assms have d: "distinct (map fst brs)" by (simp add: wf_brushes_def)
  then show "((k, e) \<in> set brs) = (map_of brs k = Some e)" by (auto dest: map_of_SomeD)
  assume "map_of brs k = Some e"
  then have "(k, e) \<in> set brs" by (rule map_of_SomeD)
  with assms show "brush_id (be_brush e) = k" by (auto simp: wf_brushes_def)
qed

lemma wf_brushes_update:
  assumes "wf_brushes brs" "brush_id (be_brush b) = k"
  shows "wf_brushes (AList.update k b brs)"
proof -
  from assms(1) have "distinct (map fst (AList.update k b brs))"
    by (simp add: wf_brushes_def distinct_update)
  moreover have "brush_id (be_brush e) = j" if "(j, e) \<in> set (AList.update k b brs)" for j e
  proof -
    from that \<open>distinct (map fst (AList.update k b brs))\<close>
    have "map_of (AList.update k b brs) j = Some e" by simp
    then have "(j = k \<and> e = b) \<or> map_of brs j = Some e"
      by (auto simp: update_conv' split: if_splits)
    with assms wf_brushes_map_of(2) [OF assms(1)] show ?thesis by auto
  qed
  ultimately show ?thesis by (auto simp: wf_brushes_def)
qed

text \<open>
  The table of the brushes after \<^verbatim>\<open>read_definitions\<close>: the readers of the elements
  and of the traces leave the table alone, and each assignment to it is under the
  identifier of the brush assigned.
\<close>

lemma keeps_ret: "keeps_brushes (ret x)" by (simp add: keeps_brushes_def ret_def)
lemma keeps_raise: "keeps_brushes (raise e)" by (simp add: keeps_brushes_def raise_def)
lemma keeps_gets: "keeps_brushes (gets f)" by (simp add: keeps_brushes_def gets_def)
lemma keeps_log_warning: "keeps_brushes (log_warning w)"
  by (simp add: keeps_brushes_def log_warning_def)

lemma keeps_bnd:
  assumes "keeps_brushes m" "\<And>x. keeps_brushes (f x)"
  shows "keeps_brushes (bnd m f)"
  unfolding keeps_brushes_def
proof
  fix s
  show "brushes (snd (bnd m f s)) = brushes s"
  proof (cases "m s")
    case (Pair r s')
    with assms(1) have b: "brushes s' = brushes s"
      by (metis keeps_brushes_def snd_conv)
    show ?thesis
    proof (cases r)
      case (Inl e)
      with Pair b show ?thesis by (simp add: bnd_def)
    next
      case (Inr x)
      from assms(2) [of x] have "brushes (snd (f x s')) = brushes s'"
        by (simp add: keeps_brushes_def)
      with Pair Inr b show ?thesis by (simp add: bnd_def)
    qed
  qed
qed

lemma keeps_fold_m:
  assumes "\<And>x acc. keeps_brushes (f x acc)"
  shows "keeps_brushes (fold_m f xs acc)"
proof (induction xs arbitrary: acc)
  case Nil
  show ?case by (simp add: keeps_ret)
next
  case (Cons x xs)
  show ?case by (simp, rule keeps_bnd) (rule assms, rule Cons)
qed

lemma keeps_for_each:
  assumes "\<And>x. keeps_brushes (f x)"
  shows "keeps_brushes (for_each xs f)"
  unfolding for_each_def by (rule keeps_fold_m) (rule assms)

lemma keeps_Let:
  assumes "\<And>x. keeps_brushes (f x)"
  shows "keeps_brushes (Let v f)"
  unfolding Let_def by (rule assms)

lemma keeps_if:
  assumes "c \<Longrightarrow> keeps_brushes a" "\<not> c \<Longrightarrow> keeps_brushes b"
  shows "keeps_brushes (if c then a else b)"
  using assms by simp

lemma keeps_option:
  assumes "keeps_brushes a" "\<And>y. keeps_brushes (b y)"
  shows "keeps_brushes (case x of None \<Rightarrow> a | Some y \<Rightarrow> b y)"
  using assms by (cases x) simp_all

lemmas keeps_intros = keeps_ret keeps_raise keeps_gets keeps_log_warning keeps_bnd
  keeps_fold_m keeps_for_each keeps_Let keeps_if keeps_option

lemma keeps_read_channel: "keeps_brushes (read_channel el)"
  unfolding read_channel_def by (intro keeps_intros)

lemma keeps_read_channels: "keeps_brushes (read_channels els)"
  unfolding read_channels_def by (intro keeps_intros keeps_read_channel)

lemma keeps_read_trace_format: "keeps_brushes (read_trace_format el)"
  unfolding read_trace_format_def by (intro keeps_intros keeps_read_channels)

lemma keeps_read_source_property: "keeps_brushes (read_source_property el)"
  unfolding read_source_property_def by (intro keeps_intros)

lemma keeps_read_channel_property: "keeps_brushes (read_channel_property el)"
  unfolding read_channel_property_def by (intro keeps_intros)

lemma keeps_read_channel_properties: "keeps_brushes (read_channel_properties el)"
  unfolding read_channel_properties_def by (intro keeps_intros keeps_read_channel_property)

lemma keeps_read_source_properties: "keeps_brushes (read_source_properties el)"
  unfolding read_source_properties_def by (intro keeps_intros keeps_read_source_property)

lemma keeps_read_sample_rate: "keeps_brushes (read_sample_rate el)"
  unfolding read_sample_rate_def by (intro keeps_intros)

lemma keeps_read_latency: "keeps_brushes (read_latency el)"
  unfolding read_latency_def by (intro keeps_intros)

lemma keeps_read_active_area: "keeps_brushes (read_active_area el)"
  unfolding read_active_area_def by (intro keeps_intros)

lemma keeps_read_ink_source: "keeps_brushes (read_ink_source el)"
  unfolding read_ink_source_def
  by (intro keeps_intros keeps_read_trace_format keeps_read_sample_rate keeps_read_latency
      keeps_read_active_area keeps_read_source_properties keeps_read_channel_properties)

lemma keeps_read_annotation: "keeps_brushes (read_annotation el)"
  unfolding read_annotation_def by (intro keeps_intros)

lemma keeps_read_annotations: "keeps_brushes (read_annotations el)"
  unfolding read_annotations_def by (intro keeps_intros keeps_read_annotation)

lemma keeps_read_brush_property: "keeps_brushes (read_brush_property el)"
  unfolding read_brush_property_def by (intro keeps_intros keeps_read_annotations)

lemma keeps_read_brush: "keeps_brushes (read_brush el)"
  unfolding read_brush_def
  by (intro keeps_intros keeps_read_brush_property keeps_read_annotations)

lemma keeps_read_timestamp: "keeps_brushes (read_timestamp el)"
  unfolding read_timestamp_def by (intro keeps_intros)

lemma keeps_read_context: "keeps_brushes (read_context el)"
  unfolding read_context_def
  by (intro keeps_intros keeps_read_trace_format keeps_read_ink_source keeps_read_brush
      keeps_read_timestamp)

lemma keeps_modify:
  assumes "\<And>s. brushes (f s) = brushes s"
  shows "keeps_brushes (modify f)"
  using assms by (simp add: keeps_brushes_def modify_def)

lemma keeps_lookup:
  assumes "keeps_brushes a" "keeps_brushes b" "\<And>v. keeps_brushes (c v)"
  shows "keeps_brushes (case x of Abort \<Rightarrow> a | Unset \<Rightarrow> b | Found v \<Rightarrow> c v)"
  using assms by (cases x) simp_all

lemma keeps_prod:
  assumes "\<And>a b. keeps_brushes (f a b)"
  shows "keeps_brushes (case p of (a, b) \<Rightarrow> f a b)"
  using assms by (cases p) simp

lemma keeps_outcome:
  assumes "\<And>v. keeps_brushes (a v)" "\<And>w. keeps_brushes (b w)" "\<And>e. keeps_brushes (c e)"
  shows "keeps_brushes (case x of Ok v \<Rightarrow> a v | Warn w \<Rightarrow> b w | Raise e \<Rightarrow> c e)"
  using assms by (cases x) simp_all

lemma keeps_and_then:
  assumes "keeps_brushes m" "\<And>t. keeps_brushes (f t)"
  shows "keeps_brushes (and_then m f)"
  unfolding and_then_def by (intro keeps_intros keeps_prod assms)

lemma keeps_lookup_ref: "keeps_brushes (lookup_ref a r kind owner attr table)"
  unfolding lookup_ref_def by (intro keeps_intros)

lemma brushes_set_next: "brushes (set_next prior addr s) = brushes s"
  by (simp add: set_next_def split: trace_item.splits)

lemma keeps_alloc: "keeps_brushes (alloc item)"
  by (simp add: keeps_brushes_def alloc_def)

lemma keeps_store: "keeps_brushes (store addr item)"
  unfolding store_def by (rule keeps_modify) simp

lemma keeps_read_trace: "keeps_brushes (read_trace a el ctx r)"
  unfolding read_trace_def read_trace_refs_def trace_context_ref_def trace_brush_ref_def
    trace_continuation_attr_def trace_prior_ref_def trace_content_def trace_id_attr_def
  by (intro keeps_intros keeps_and_then keeps_lookup keeps_lookup_ref keeps_prod keeps_alloc
      keeps_store keeps_outcome keeps_modify brushes_set_next)

lemma keeps_read_trace_group: "keeps_brushes (read_trace_group a el r)"
  unfolding read_trace_group_def
  by (intro keeps_intros keeps_lookup keeps_lookup_ref keeps_read_annotations)

lemma keeps_read_indices: "keeps_brushes (read_indices key label el)"
  unfolding read_indices_def by (intro keeps_intros)

lemma keeps_read_trace_view: "keeps_brushes (read_trace_view a el)"
  unfolding read_trace_view_def by (intro keeps_intros keeps_read_indices)

lemma keepsD: "keeps_brushes m \<Longrightarrow> m s = (r, s') \<Longrightarrow> brushes s' = brushes s"
  by (metis keeps_brushes_def snd_conv)

lemma snd_case_items:
  "snd (case p of (Inl e, s2) \<Rightarrow> (Inl e, s2) | (Inr items, s2) \<Rightarrow> (Inr (f items), s2))
     = snd p"
  by (cases p; cases "fst p") auto

lemma brushes_read_trace_items:
  "brushes (snd (read_trace_items a els ctx s)) = brushes s"
proof (induction a els ctx s rule: read_trace_items.induct)
  case (1 a ctx s)
  show ?case by simp
next
  case (2 a tg attrs content tail kids rest ctx s)
  let ?el = "Element tg attrs content tail kids"
  show ?case
  proof (cases "tg = TRACE")
    case True
    obtain r s1 where rt: "read_trace a ?el ctx True s = (r, s1)"
      by (cases "read_trace a ?el ctx True s")
    from keepsD [OF keeps_read_trace rt] have b: "brushes s1 = brushes s" .
    show ?thesis
    proof (cases r)
      case (Inl e)
      with True rt b show ?thesis by simp
    next
      case (Inr v)
      show ?thesis
      proof (cases v)
        case None
        with 2(1) [OF True rt [symmetric, unfolded Inr None] refl] True rt Inr b
        show ?thesis by simp
      next
        case (Some p)
        obtain addr trace where p: "p = (addr, trace)" by (cases p)
        from 2(2) [OF True rt [symmetric, unfolded Inr Some p] refl refl refl] True rt Inr Some p b
        show ?thesis by (simp add: snd_case_items)
      qed
    qed
  next
    case nt: False
    show ?thesis
    proof (cases "tg = TRACE_GROUP")
      case True
      obtain r s1 where rt: "read_trace_group a ?el True s = (r, s1)"
        by (cases "read_trace_group a ?el True s")
      from keepsD [OF keeps_read_trace_group rt] have b: "brushes s1 = brushes s" .
      show ?thesis
      proof (cases r)
        case (Inl e)
        with nt True rt b show ?thesis by simp
      next
        case (Inr v)
        show ?thesis
        proof (cases v)
          case None
          with 2(3) [OF nt True rt [symmetric, unfolded Inr None] refl] nt True rt Inr b
          show ?thesis by simp
        next
          case (Some grp)
          let ?s1 = "s1\<lparr>heap := heap s1 @ [GroupItem grp]\<rparr>"
          obtain r2 s2 where m: "read_trace_items a kids (py_or (tg_context grp) ctx) ?s1 = (r2, s2)"
            by (cases "read_trace_items a kids (py_or (tg_context grp) ctx) ?s1")
          from 2(4) [OF nt True rt [symmetric, unfolded Inr Some] refl refl] m b
          have b2: "brushes s2 = brushes s" by simp
          show ?thesis
          proof (cases r2)
            case (Inl e)
            with nt True rt Inr Some m b2 show ?thesis by simp
          next
            case (Inr members)
            from 2(5) [OF nt True rt [symmetric, unfolded \<open>r = Inr v\<close> Some] refl refl
                m [symmetric, unfolded Inr] refl]
              nt True rt \<open>r = Inr v\<close> Some m Inr b2
            show ?thesis by (simp add: snd_case_items Let_def)
          qed
        qed
      qed
    next
      case ng: False
      show ?thesis
      proof (cases "tg = TRACE_VIEW")
        case True
        obtain r s1 where rt: "read_trace_view a ?el s = (r, s1)"
          by (cases "read_trace_view a ?el s")
        from keepsD [OF keeps_read_trace_view rt] have b: "brushes s1 = brushes s" .
        show ?thesis
        proof (cases r)
          case (Inl e)
          with nt ng True rt b show ?thesis by simp
        next
          case (Inr v)
          show ?thesis
          proof (cases v)
            case None
            with 2(6) [OF nt ng True rt [symmetric, unfolded Inr None] refl] nt ng True rt Inr b
            show ?thesis by simp
          next
            case (Some view)
            from 2(7) [OF nt ng True rt [symmetric, unfolded Inr Some] refl refl]
              nt ng True rt Inr Some b
            show ?thesis by (simp add: snd_case_items Let_def)
          qed
        qed
      next
        case False
        with 2(8) [OF nt ng False] nt ng show ?thesis by simp
      qed
    qed
  qed
qed

lemma keeps_wfI: "keeps_brushes m \<Longrightarrow> keeps_wf m"
  by (simp add: keeps_wf_def keeps_brushes_def)

lemma keeps_wf_bnd:
  assumes "keeps_wf m" "\<And>x. keeps_wf (f x)"
  shows "keeps_wf (bnd m f)"
  unfolding keeps_wf_def
proof (intro allI impI)
  fix s :: rstate
  assume wf: "wf_brushes (brushes s)"
  show "wf_brushes (brushes (snd (bnd m f s)))"
  proof (cases "m s")
    case (Pair r s')
    with assms(1) wf have b: "wf_brushes (brushes s')"
      by (metis keeps_wf_def snd_conv)
    show ?thesis
    proof (cases r)
      case (Inl e)
      with Pair b show ?thesis by (simp add: bnd_def)
    next
      case (Inr x)
      from assms(2) [of x] b have "wf_brushes (brushes (snd (f x s')))"
        by (simp add: keeps_wf_def)
      with Pair Inr show ?thesis by (simp add: bnd_def)
    qed
  qed
qed

lemma keeps_wf_fold_m:
  assumes "\<And>x acc. keeps_wf (f x acc)"
  shows "keeps_wf (fold_m f xs acc)"
proof (induction xs arbitrary: acc)
  case Nil
  show ?case by (simp add: keeps_wfI keeps_ret)
next
  case (Cons x xs)
  show ?case by (simp, rule keeps_wf_bnd) (rule assms, rule Cons)
qed

lemma keeps_wf_for_each:
  assumes "\<And>x. keeps_wf (f x)"
  shows "keeps_wf (for_each xs f)"
  unfolding for_each_def by (rule keeps_wf_fold_m) (rule assms)

lemma keeps_wf_modify:
  assumes "\<And>s. wf_brushes (brushes s) \<Longrightarrow> wf_brushes (brushes (f s))"
  shows "keeps_wf (modify f)"
  using assms by (simp add: keeps_wf_def modify_def)

lemma keeps_wf_read_definitions_items: "keeps_wf (read_definitions_items el)"
  unfolding read_definitions_items_def
proof (intro keeps_wf_bnd keeps_wf_for_each)
  fix x
  show "keeps_wf (read_ink_source x)" by (intro keeps_wfI keeps_read_ink_source)
  show "keeps_wf (read_brush x)" by (intro keeps_wfI keeps_read_brush)
  show "keeps_wf (read_trace_format x)" by (intro keeps_wfI keeps_read_trace_format)
  show "keeps_wf (read_timestamp x)" by (intro keeps_wfI keeps_read_timestamp)
next
  fix timestamp :: "timestamp_envelope option"
  show "keeps_wf (case timestamp of None \<Rightarrow> ret ()
      | Some ts \<Rightarrow>
          modify (\<lambda>s. s\<lparr>timestamps :=
            AList.update (ts_id (te_timestamp ts)) ts (timestamps s)\<rparr>))"
    by (cases timestamp) (auto intro!: keeps_wfI keeps_ret keeps_modify)
next
  fix src :: "ink_source option"
  show "keeps_wf (case src of None \<Rightarrow> ret ()
      | Some src \<Rightarrow>
          modify (\<lambda>s.
            (let s1 = s\<lparr>ink_sources := AList.update (src_id src) src (ink_sources s)\<rparr>
             in if tf_id (src_trace_format src) \<noteq> []
                then s1\<lparr>trace_formats :=
                          AList.update (tf_id (src_trace_format src))
                            (src_trace_format src) (trace_formats s1)\<rparr>
                else s1)))"
    by (cases src) (auto intro!: keeps_wfI keeps_ret keeps_modify simp: Let_def)
next
  fix brush :: brush_envelope
  show "keeps_wf (if brush_id (be_brush brush) = [] then ret ()
      else modify (\<lambda>s. s\<lparr>brushes :=
             AList.update (brush_id (be_brush brush)) brush (brushes s)\<rparr>))"
    by (auto intro!: keeps_wfI keeps_ret keeps_wf_modify wf_brushes_update)
next
  fix trace_format :: trace_format
  show "keeps_wf (if tf_id trace_format = [] then ret ()
      else modify (\<lambda>s. s\<lparr>trace_formats :=
             AList.update (tf_id trace_format) trace_format (trace_formats s)\<rparr>))"
    by (auto intro!: keeps_wfI keeps_ret keeps_modify)
qed

lemma keeps_read_definitions_contexts: "keeps_brushes (read_definitions_contexts el)"
  unfolding read_definitions_contexts_def
  by (intro keeps_intros keeps_read_context keeps_modify) simp

lemma keeps_read_toplevel_contexts: "keeps_brushes (read_toplevel_contexts el)"
  unfolding read_toplevel_contexts_def
  by (intro keeps_intros keeps_read_context keeps_modify) simp

lemma wf_register_nested:
  assumes "wf_brushes (brushes s)"
  shows "wf_brushes (brushes (register_nested envelope s))"
  using assms
  by (auto simp: register_nested_def Let_def intro: wf_brushes_update split: sum.splits)

lemma wf_fold_register_nested:
  assumes "wf_brushes (brushes s)"
  shows "wf_brushes (brushes (fold register_nested es s))"
  using assms by (induction es arbitrary: s) (simp_all add: wf_register_nested)

lemma keeps_read_traces: "keeps_brushes (read_traces a el ctx)"
  by (simp add: keeps_brushes_def read_traces_def brushes_read_trace_items)

lemma read_definitions_wf_brushes:
  "wf_brushes (brushes (snd (read_definitions a root_element s)))"
proof -
  let ?s0 = "Definitions\<lparr>heap := heap s, warnings := warnings s\<rparr>"
  let ?rest = "bnd (for_each (findall_children root_element ''definitions'') read_definitions_items)
       (\<lambda>_. bnd (for_each (findall_children root_element ''definitions'') read_definitions_contexts)
       (\<lambda>_. bnd (read_toplevel_contexts root_element)
       (\<lambda>_. bnd (modify (\<lambda>s. fold register_nested (map snd (contexts s)) s))
       (\<lambda>_. for_each (findall_children root_element ''definitions'')
               (\<lambda>element. bnd (read_traces a element None) (\<lambda>_. ret ()))))))"
  have "keeps_wf ?rest"
    by (intro keeps_wf_bnd keeps_wf_for_each keeps_wf_read_definitions_items
        keeps_wfI [OF keeps_read_definitions_contexts]
        keeps_wfI [OF keeps_read_toplevel_contexts]
        keeps_wfI [OF keeps_read_traces] keeps_wfI [OF keeps_ret]
        keeps_wf_modify wf_fold_register_nested)
  moreover have "wf_brushes (brushes ?s0)" by (simp add: Definitions_def wf_brushes_def)
  ultimately have "wf_brushes (brushes (snd (?rest ?s0)))" by (simp add: keeps_wf_def)
  then show ?thesis by (simp add: read_definitions_def bnd_def modify_def)
qed

lemma seed_ids_sets:
  assumes "wf_brushes brs" "seed_ids brs = (backlog, resolved)"
  shows "set backlog = {k. \<exists>e. map_of brs k = Some e \<and> \<not> is_terminal e}"
    and "set resolved = {k. \<exists>e. map_of brs k = Some e \<and> is_terminal e}"
    and "distinct backlog"
proof -
  have *: "(\<lambda>b. brush_id (be_brush b)) ` {e \<in> snd ` set brs. P e}
      = {k. \<exists>e. map_of brs k = Some e \<and> P e}" for P
  proof (intro set_eqI iffI)
    fix k
    assume "k \<in> (\<lambda>b. brush_id (be_brush b)) ` {e \<in> snd ` set brs. P e}"
    then obtain j e where "(j, e) \<in> set brs" "P e" "k = brush_id (be_brush e)" by auto
    with wf_brushes_map_of [OF assms(1), of j e]
    show "k \<in> {k. \<exists>e. map_of brs k = Some e \<and> P e}" by auto
  next
    fix k
    assume "k \<in> {k. \<exists>e. map_of brs k = Some e \<and> P e}"
    then obtain e where e: "map_of brs k = Some e" "P e" by blast
    with wf_brushes_map_of [OF assms(1), of k e] have "(k, e) \<in> set brs"
      "brush_id (be_brush e) = k" by auto
    with e(2) show "k \<in> (\<lambda>b. brush_id (be_brush b)) ` {e \<in> snd ` set brs. P e}"
      by (force intro: rev_image_eqI)
  qed
  from assms(2) have b: "backlog = remdups (map (\<lambda>b. brush_id (be_brush b))
        (filter (\<lambda>b. \<not> is_terminal b) (map snd brs)))"
    and r: "resolved = remdups (map (\<lambda>b. brush_id (be_brush b))
        (filter is_terminal (map snd brs)))"
    by (simp_all add: seed_ids_def)
  show "set backlog = {k. \<exists>e. map_of brs k = Some e \<and> \<not> is_terminal e}"
    using * [of "\<lambda>e. \<not> is_terminal e"] by (simp add: b)
  show "set resolved = {k. \<exists>e. map_of brs k = Some e \<and> is_terminal e}"
    using * [of is_terminal] by (simp add: r)
  show "distinct backlog" by (simp add: b)
qed

lemma inv_init:
  assumes "wf_brushes brs" "seed_ids brs = (backlog, resolved)"
  shows "inv brs brs backlog resolved"
proof -
  note s = seed_ids_sets [OF assms]
  have 3: "set backlog \<inter> set resolved = {}" unfolding s(1,2) by auto
  have 4: "set backlog \<union> set resolved = fst ` set brs"
  proof (intro set_eqI iffI)
    fix k assume "k \<in> set backlog \<union> set resolved"
    then show "k \<in> fst ` set brs" unfolding s(1,2) by (auto dest: map_of_Some_key)
  next
    fix k assume "k \<in> fst ` set brs"
    from key_map_of [OF this] show "k \<in> set backlog \<union> set resolved"
      unfolding s(1,2) by auto
  qed
  have 5: "\<forall>i\<in>set resolved. grounded brs i \<and> settled brs brs (set resolved) i"
    unfolding s(2) by (auto intro: grounded.terminal simp: settled_def)
  have 6: "\<forall>i e. map_of brs i = Some e \<and> is_terminal e \<longrightarrow> i \<in> set resolved"
    unfolding s(2) by auto
  from 3 4 5 6 s(3) show ?thesis by (simp add: inv_def same_refs_refl)
qed

lemma resolve_brush_parent_references_result:
  assumes "wf_brushes brs"
  shows "\<exists>cur' rest. resolve_brush_parent_references brs = Inr (cur', rest)
           \<and> same_refs brs cur' \<and> distinct rest
           \<and> set rest = {i \<in> fst ` set brs. \<not> grounded brs i}
           \<and> (\<forall>i. grounded brs i \<longrightarrow> settled brs cur' {i. grounded brs i} i)"
proof -
  obtain backlog resolved where s: "seed_ids brs = (backlog, resolved)" by (cases "seed_ids brs")
  from resolve_loop_result [OF inv_init [OF assms s]] s show ?thesis
    by (simp add: resolve_brush_parent_references_def)
qed

lemma map_of_fold_delete:
  "map_of (fold AList.delete ks al) i = (if i \<in> set ks then None else map_of al i)"
  by (induction ks arbitrary: al) (simp_all add: delete_conv')

lemma keys_fold_delete:
  "map fst (fold AList.delete ks al) = filter (\<lambda>k. k \<notin> set ks) (map fst al)"
proof (induction ks arbitrary: al)
  case Nil
  then show ?case by simp
next
  case (Cons k ks)
  have "filter (\<lambda>x. x \<notin> set ks) (removeAll k (map fst al))
      = filter (\<lambda>x. x \<notin> set (k # ks)) (map fst al)"
    by (induction al) auto
  with Cons show ?case by (simp add: delete_keys)
qed

lemma grounded_key: "grounded brs i \<Longrightarrow> i \<in> fst ` set brs"
  by (erule grounded.cases) (auto dest: map_of_Some_key)

lemma grounded_transfer:
  assumes "\<forall>i. grounded brs i \<longrightarrow>
      (\<exists>e e'. map_of brs i = Some e \<and> map_of final i = Some e'
         \<and> be_parent_ref e' = be_parent_ref e)"
    and "grounded brs i"
  shows "grounded final i"
  using assms(2)
proof (induction rule: grounded.induct)
  case (terminal i e)
  then have "grounded brs i" by (rule grounded.terminal)
  with assms(1) terminal obtain e' where "map_of final i = Some e'"
    "be_parent_ref e' = be_parent_ref e" by fastforce
  with terminal(2) show ?case by (auto intro: grounded.terminal simp: is_terminal_def)
next
  case (parent i e)
  from parent(1,2) have "grounded brs i" by (rule grounded.parent)
  with assms(1) parent(1) obtain e' where "map_of final i = Some e'"
    "be_parent_ref e' = be_parent_ref e" by fastforce
  with parent(3) show ?case by (auto intro: grounded.parent simp: parent_id_def)
qed

lemma grounded_no_cycle:
  assumes "grounded T i"
  shows "(i, i) \<notin> (parent_rel T)\<^sup>+"
  using assms
proof (induction rule: grounded.induct)
  case (terminal i e)
  show ?case
  proof
    assume "(i, i) \<in> (parent_rel T)\<^sup>+"
    then obtain z where "(i, z) \<in> parent_rel T" by (auto dest: tranclD)
    with terminal show False by (auto simp: parent_rel_def)
  qed
next
  case (parent i e)
  show ?case
  proof
    assume "(i, i) \<in> (parent_rel T)\<^sup>+"
    then obtain z where z: "(i, z) \<in> parent_rel T" "(z, i) \<in> (parent_rel T)\<^sup>*"
      by (auto dest: tranclD)
    with parent(1) have "z = parent_id e" by (auto simp: parent_rel_def)
    with z have "(parent_id e, parent_id e) \<in> (parent_rel T)\<^sup>+"
      by (auto intro: rtrancl_into_trancl1)
    with parent(3) show False by simp
  qed
qed

lemma acyclic_parent_rel:
  assumes "\<forall>i\<in>fst ` set T. grounded T i"
  shows "acyclic (parent_rel T)"
  unfolding acyclic_def
proof (intro allI notI)
  fix x
  assume c: "(x, x) \<in> (parent_rel T)\<^sup>+"
  then obtain z where "(x, z) \<in> parent_rel T" by (auto dest: tranclD)
  then have "x \<in> fst ` set T" by (auto simp: parent_rel_def dest: map_of_Some_key)
  with assms have "grounded T x" by blast
  from grounded_no_cycle [OF this] c show False by simp
qed

lemma map_of_filter_keys:
  "map_of (filter (\<lambda>(k, e). k \<notin> C) brs) i = (if i \<in> C then None else map_of brs i)"
  by (induction brs) auto

lemma cycle_is_deletion:
  assumes "parent_cycle C brs"
  shows "grounded brs i = grounded (filter (\<lambda>(k, e). k \<notin> C) brs) i"
proof
  assume "grounded brs i"
  then have "i \<notin> C \<and> grounded (filter (\<lambda>(k, e). k \<notin> C) brs) i"
  proof (induction rule: grounded.induct)
    case (terminal i e)
    with assms have "i \<notin> C" by (auto simp: parent_cycle_def split: option.splits)
    moreover with terminal have "map_of (filter (\<lambda>(k, e). k \<notin> C) brs) i = Some e"
      by (simp add: map_of_filter_keys)
    ultimately show ?case using terminal(2) by (auto intro: grounded.terminal)
  next
    case (parent i e)
    with assms have "i \<notin> C" by (auto simp: parent_cycle_def split: option.splits)
    moreover with parent have "map_of (filter (\<lambda>(k, e). k \<notin> C) brs) i = Some e"
      by (simp add: map_of_filter_keys)
    ultimately show ?case using parent(3) by (auto intro: grounded.parent)
  qed
  then show "grounded (filter (\<lambda>(k, e). k \<notin> C) brs) i" by simp
next
  assume "grounded (filter (\<lambda>(k, e). k \<notin> C) brs) i"
  then show "grounded brs i"
  proof (induction rule: grounded.induct)
    case (terminal i e)
    then have "map_of brs i = Some e" by (simp add: map_of_filter_keys split: if_splits)
    with terminal(2) show ?case by (auto intro: grounded.terminal)
  next
    case (parent i e)
    then have "map_of brs i = Some e" by (simp add: map_of_filter_keys split: if_splits)
    with parent(3) show ?case by (auto intro: grounded.parent)
  qed
qed

text \<open>
  Claim C4, as stated, fails in its last part. With the brushes \<^verbatim>\<open>a\<close> (no parent),
  \<^verbatim>\<open>b\<close> and \<^verbatim>\<open>c\<close> (parent \<^verbatim>\<open>#a\<close>) all three stay in the definitions. Giving \<^verbatim>\<open>a\<close> the
  parent \<^verbatim>\<open>#b\<close> makes a cycle of \<^verbatim>\<open>a\<close> and \<^verbatim>\<open>b\<close>; the brush \<^verbatim>\<open>c\<close>, which is not in the
  cycle, is removed with them.
\<close>

theorem brush_cycle_counterexample:
  "map fst (brushes (snd (resolve_references
      (Definitions\<lparr>brushes := [brush_env ''a'' [], brush_env ''b'' ''#a'',
         brush_env ''c'' ''#a'']\<rparr>)))) = [''a'', ''b'', ''c'']
   \<and> parent_cycle (set [''a'', ''b''])
        [brush_env ''a'' ''#b'', brush_env ''b'' ''#a'', brush_env ''c'' ''#a'']
   \<and> resolve_references
        (Definitions\<lparr>brushes := [brush_env ''a'' ''#b'', brush_env ''b'' ''#a'',
           brush_env ''c'' ''#a'']\<rparr>)
      = (Inr (), Definitions\<lparr>brushes := [],
           warnings := [BrushesIgnored [''a'', ''b'', ''c'']]\<rparr>)"
  by code_simp

text \<open>
  Claim C4, amended. The table of the brushes has each brush under its own identifier,
  as it has after \<^verbatim>\<open>read_definitions\<close> (lemma \<open>read_definitions_wf_brushes\<close>). After
  reference resolution every brush remaining in the definitions has a finite acyclic parent chain, ending at a brush without parent
  reference or with the reference \<^verbatim>\<open>#DefaultBrush\<close>, and its parent is the remaining brush
  its reference names. The brushes removed are exactly those whose reference never
  resolves: it leads, through the references of the brushes, into a cycle or to an
  identifier that names no brush. They are reported in one consolidated warning that
  names them, and no warning is given when none is removed. Introducing a parent cycle
  among some brushes has the effect of deleting these brushes from the table before
  resolution: they are absent from the output, so is every brush whose references lead
  to them, and every other brush stays.
\<close>

theorem brush_resolution:
  assumes "wf_brushes (brushes s)"
  shows "\<exists>ignored final.
      resolve_references s =
        (Inr (), s\<lparr>brushes := final,
                   warnings := warnings s
                     @ (if ignored = [] then [] else [BrushesIgnored ignored])\<rparr>)
      \<and> distinct ignored
      \<and> set ignored = {i \<in> fst ` set (brushes s). \<not> grounded (brushes s) i}
      \<and> map fst final = filter (grounded (brushes s)) (map fst (brushes s))
      \<and> (\<forall>i\<in>fst ` set final.
            grounded final i \<and> settled (brushes s) final (fst ` set final) i)
      \<and> acyclic (parent_rel final)
      \<and> (\<forall>C. parent_cycle C (brushes s) \<longrightarrow>
            (\<forall>i. grounded (brushes s) i
                 = grounded (filter (\<lambda>(k, e). k \<notin> C) (brushes s)) i))"
proof -
  define brs where "brs = brushes s"
  from resolve_brush_parent_references_result [OF assms]
  obtain cur' rest where r: "resolve_brush_parent_references brs = Inr (cur', rest)"
    "same_refs brs cur'" "distinct rest"
    "set rest = {i \<in> fst ` set brs. \<not> grounded brs i}"
    "\<forall>i. grounded brs i \<longrightarrow> settled brs cur' {i. grounded brs i} i"
    unfolding brs_def by blast
  define final where "final = fold AList.delete rest cur'"
  have m: "map_of final i = (if i \<in> set rest then None else map_of cur' i)" for i
    by (simp add: final_def map_of_fold_delete)
  have k0: "map fst final = filter (\<lambda>k. k \<notin> set rest) (map fst brs)"
    using same_refs_keys [OF r(2)] by (simp add: final_def keys_fold_delete)
  have k: "map fst final = filter (grounded brs) (map fst brs)"
    unfolding k0 by (rule filter_cong) (auto simp: r(4))
  have ks: "fst ` set final = {i. grounded brs i}"
  proof -
    have "fst ` set final = set (map fst final)" by simp
    also have "\<dots> = {i \<in> fst ` set brs. grounded brs i}" unfolding k by auto
    also have "\<dots> = {i. grounded brs i}" using grounded_key by blast
    finally show ?thesis .
  qed
  have mg: "map_of final i = map_of cur' i" if "grounded brs i" for i
    using that by (simp add: m r(4))
  have tr: "\<forall>i. grounded brs i \<longrightarrow>
      (\<exists>e e'. map_of brs i = Some e \<and> map_of final i = Some e'
         \<and> be_parent_ref e' = be_parent_ref e)"
  proof (intro allI impI)
    fix i assume g: "grounded brs i"
    from key_map_of [OF grounded_key [OF g]] obtain e where e: "map_of brs i = Some e" by blast
    from same_refs_Some [OF r(2) e] mg [OF g] e
    show "\<exists>e e'. map_of brs i = Some e \<and> map_of final i = Some e'
         \<and> be_parent_ref e' = be_parent_ref e"
      by auto
  qed
  have g: "grounded final i \<and> settled brs final (fst ` set final) i"
    if "i \<in> fst ` set final" for i
  proof -
    from that ks have gi: "grounded brs i" by simp
    have a: "\<forall>j\<in>insert i {i. grounded brs i}. map_of final j = map_of cur' j"
      using gi mg by auto
    from r(5) gi have "settled brs cur' {i. grounded brs i} i" by blast
    from settled_mono [OF this subset_refl a] grounded_transfer [OF tr gi] ks
    show ?thesis by simp
  qed
  then have ac: "acyclic (parent_rel final)" by (intro acyclic_parent_rel) blast
  have rr: "resolve_references s =
      (Inr (), s\<lparr>brushes := final,
                 warnings := warnings s @ (if rest = [] then [] else [BrushesIgnored rest])\<rparr>)"
    using r(1) by (simp add: resolve_references_def brs_def [symmetric] final_def)
  from rr r(3,4) k g ac cycle_is_deletion show ?thesis
    unfolding brs_def [symmetric] by blast
qed

theorem brush_resolution_witness:
  "(\<exists>ignored final.
      resolve_references
        (Definitions\<lparr>brushes := [brush_env ''a'' ''#b'', brush_env ''b'' ''#a'',
           brush_env ''c'' ''#a'', brush_env ''d'' [], brush_env ''e'' ''#d'']\<rparr>)
      = (Inr (), Definitions\<lparr>brushes := final, warnings := [BrushesIgnored ignored]\<rparr>)
      \<and> set ignored = {''a'', ''b'', ''c''} \<and> map fst final = [''d'', ''e'']
      \<and> acyclic (parent_rel final))"
proof -
  define S where "S = Definitions\<lparr>brushes := [brush_env ''a'' ''#b'', brush_env ''b'' ''#a'',
           brush_env ''c'' ''#a'', brush_env ''d'' [], brush_env ''e'' ''#d'']\<rparr>"
  have wf: "wf_brushes (brushes S)" unfolding S_def by code_simp
  have ev: "resolve_references S =
     (Inr (), Definitions\<lparr>brushes := [brush_env ''d'' [],
         (''e'', \<lparr>be_brush = Brush ''e'' (Some (Brush ''d'' None [] [])) [] [],
                  be_parent_ref = ''#d''\<rparr>)],
       warnings := [BrushesIgnored [''a'', ''b'', ''c'']]\<rparr>)"
    unfolding S_def by code_simp
  from brush_resolution [OF wf] obtain ignored final where
    r: "resolve_references S =
        (Inr (), S\<lparr>brushes := final,
                   warnings := warnings S
                     @ (if ignored = [] then [] else [BrushesIgnored ignored])\<rparr>)"
    "acyclic (parent_rel final)"
    by blast
  from r(1) ev have "final = [brush_env ''d'' [],
         (''e'', \<lparr>be_brush = Brush ''e'' (Some (Brush ''d'' None [] [])) [] [],
                  be_parent_ref = ''#d''\<rparr>)]"
    by (simp add: S_def Definitions_def)
  with r(2) have "acyclic (parent_rel [brush_env ''d'' [],
         (''e'', \<lparr>be_brush = Brush ''e'' (Some (Brush ''d'' None [] [])) [] [],
                  be_parent_ref = ''#d''\<rparr>)])"
    by simp
  with ev show ?thesis
    unfolding S_def [symmetric] by (intro exI [where x = "[''a'', ''b'', ''c'']"] exI conjI)
      (simp_all add: brush_env_def)
qed

end
